theory Spec2Isabelle
  imports Main
begin

section \<open>The platform: JSON values and their text form\<close>

text \<open>
  \<^verbatim>\<open>StoragePlus\<close> keeps every entry as the text \<^verbatim>\<open>JSON.stringify(item)\<close> and reads
  it back with \<^verbatim>\<open>JSON.parse\<close>. Both are built-ins of the JavaScript platform, not code
  of the library, so they are modelled here: the values are the JSON values, numbers are
  the integers (the library's own numbers are millisecond timestamps), and a string is a
  list of 8-bit code units. Number syntax with a fraction or an exponent, and unicode
  escapes above code unit 255, lie outside this model and are rejected by the parser.
  These are the only texts on which the parser below and \<^verbatim>\<open>JSON.parse\<close> differ; the
  statements about texts that are not envelopes leave them out (\<open>outside_model\<close>,
  \<open>corrupt\<close>). A JavaScript object has each property name once; \<open>distinct_keys\<close> says so.
\<close>

datatype json =
    JNull
  | JBool bool
  | JNum int
  | JStr string
  | JArr "json list"
  | JObj "(string \<times> json) list"

fun distinct_keys :: "json \<Rightarrow> bool" where
  "distinct_keys (JArr vs) = list_all distinct_keys vs"
| "distinct_keys (JObj ps) = (distinct (map fst ps) \<and> list_all (\<lambda>p. distinct_keys (snd p)) ps)"
| "distinct_keys _ = True"

abbreviation DQ :: char where "DQ \<equiv> CHR 0x22"
abbreviation BS :: char where "BS \<equiv> CHR 0x5C"

subsection \<open>JSON.stringify\<close>

definition digit_char :: "nat \<Rightarrow> char" where
  "digit_char d = char_of (48 + d)"

fun show_nat :: "nat \<Rightarrow> string" where
  "show_nat n = (if n < 10 then [digit_char n] else show_nat (n div 10) @ [digit_char (n mod 10)])"

declare show_nat.simps [simp del]

definition show_int :: "int \<Rightarrow> string" where
  "show_int i = (if i < 0 then CHR ''-'' # show_nat (nat (- i)) else show_nat (nat i))"

definition hex_char :: "nat \<Rightarrow> char" where
  "hex_char d = (if d < 10 then char_of (48 + d) else char_of (87 + d))"

text \<open>QuoteJSONString: the two-character escapes, the six-character unicode escape for the other
  control characters, every other code unit as it is.\<close>

definition escape_char :: "char \<Rightarrow> string" where
  "escape_char c =
     (if c = CHR 0x08 then [BS, CHR ''b'']
      else if c = CHR 0x09 then [BS, CHR ''t'']
      else if c = CHR 0x0A then [BS, CHR ''n'']
      else if c = CHR 0x0C then [BS, CHR ''f'']
      else if c = CHR 0x0D then [BS, CHR ''r'']
      else if c = DQ then [BS, DQ]
      else if c = BS then [BS, BS]
      else if (of_char c :: nat) < 32
        then [BS, CHR ''u'', CHR ''0'', CHR ''0'', hex_char (of_char c div 16), hex_char (of_char c mod 16)]
      else [c])"

definition JSON_quote :: "string \<Rightarrow> string" where
  "JSON_quote s = DQ # concat (map escape_char s) @ [DQ]"

fun join_comma :: "string list \<Rightarrow> string" where
  "join_comma [] = []"
| "join_comma [x] = x"
| "join_comma (x # y # ys) = x @ CHR '','' # join_comma (y # ys)"

fun JSON_stringify :: "json \<Rightarrow> string" where
  "JSON_stringify JNull = ''null''"
| "JSON_stringify (JBool b) = (if b then ''true'' else ''false'')"
| "JSON_stringify (JNum n) = show_int n"
| "JSON_stringify (JStr s) = JSON_quote s"
| "JSON_stringify (JArr vs) = CHR ''['' # join_comma (map JSON_stringify vs) @ '']''"
| "JSON_stringify (JObj ps) =
     CHR ''{'' # join_comma (map (\<lambda>p. JSON_quote (fst p) @ CHR '':'' # JSON_stringify (snd p)) ps) @ ''}''"

subsection \<open>JSON.parse\<close>

definition is_ws :: "char \<Rightarrow> bool" where
  "is_ws c \<longleftrightarrow> c = CHR '' '' \<or> c = CHR 0x09 \<or> c = CHR 0x0A \<or> c = CHR 0x0D"

definition skip_ws :: "string \<Rightarrow> string" where
  "skip_ws = dropWhile is_ws"

definition is_digit :: "char \<Rightarrow> bool" where
  "is_digit c \<longleftrightarrow> 48 \<le> (of_char c :: nat) \<and> (of_char c :: nat) \<le> 57"

definition digits_val :: "string \<Rightarrow> nat" where
  "digits_val ds = foldl (\<lambda>a c. 10 * a + (of_char c - 48)) 0 ds"

text \<open>A JSON number of the integer model: an optional minus sign, then \<^verbatim>\<open>0\<close> or a digit
  string without a leading zero.\<close>

definition parse_number :: "string \<Rightarrow> (json \<times> string) option" where
  "parse_number cs =
     (let neg = (cs \<noteq> [] \<and> hd cs = CHR ''-'');
          cs1 = (if neg then tl cs else cs);
          ds = takeWhile is_digit cs1;
          rest = dropWhile is_digit cs1
      in if ds = [] \<or> (1 < length ds \<and> hd ds = CHR ''0'') then None
         else Some (JNum (if neg then - int (digits_val ds) else int (digits_val ds)), rest))"

definition hex_val :: "char \<Rightarrow> nat option" where
  "hex_val c =
     (let n = (of_char c :: nat)
      in if 48 \<le> n \<and> n \<le> 57 then Some (n - 48)
         else if 97 \<le> n \<and> n \<le> 102 then Some (n - 87)
         else if 65 \<le> n \<and> n \<le> 70 then Some (n - 55)
         else None)"

definition unescape_u :: "char \<Rightarrow> char \<Rightarrow> char \<Rightarrow> char \<Rightarrow> char option" where
  "unescape_u h1 h2 h3 h4 =
     (case (hex_val h1, hex_val h2, hex_val h3, hex_val h4) of
        (Some a, Some b, Some c, Some d) \<Rightarrow>
          if a = 0 \<and> b = 0 then Some (char_of (16 * c + d)) else None
      | _ \<Rightarrow> None)"

definition unescape_simple :: "char \<Rightarrow> char option" where
  "unescape_simple e =
     (if e = DQ then Some DQ
      else if e = BS then Some BS
      else if e = CHR ''/'' then Some (CHR ''/'')
      else if e = CHR ''b'' then Some (CHR 0x08)
      else if e = CHR ''f'' then Some (CHR 0x0C)
      else if e = CHR ''n'' then Some (CHR 0x0A)
      else if e = CHR ''r'' then Some (CHR 0x0D)
      else if e = CHR ''t'' then Some (CHR 0x09)
      else None)"

text \<open>The characters of a string literal after its opening quote, up to the closing one.\<close>

fun parse_chars :: "string \<Rightarrow> (string \<times> string) option" where
  "parse_chars [] = None"
| "parse_chars (c # cs) =
     (if c = DQ then Some ([], cs)
      else if c = BS then
        (case cs of
           [] \<Rightarrow> None
         | e # r \<Rightarrow>
             if e = CHR ''u'' then
               (case r of
                  h1 # h2 # h3 # h4 # r' \<Rightarrow>
                    (case unescape_u h1 h2 h3 h4 of
                       None \<Rightarrow> None
                     | Some x \<Rightarrow> map_option (\<lambda>(s, t). (x # s, t)) (parse_chars r'))
                | _ \<Rightarrow> None)
             else
               (case unescape_simple e of
                  None \<Rightarrow> None
                | Some x \<Rightarrow> map_option (\<lambda>(s, t). (x # s, t)) (parse_chars r)))
      else if (of_char c :: nat) < 32 then None
      else map_option (\<lambda>(s, t). (c # s, t)) (parse_chars cs))"

definition parse_literal :: "string \<Rightarrow> json \<Rightarrow> string \<Rightarrow> (json \<times> string) option" where
  "parse_literal w v cs = (if take (length w) cs = w then Some (v, drop (length w) cs) else None)"

text \<open>Assigning the members of an object literal in order: a repeated name keeps its first
  position and takes the last value.\<close>

fun set_property :: "string \<Rightarrow> json \<Rightarrow> (string \<times> json) list \<Rightarrow> (string \<times> json) list" where
  "set_property k v [] = [(k, v)]"
| "set_property k v (p # ps) = (if fst p = k then (k, v) # ps else p # set_property k v ps)"

definition object_of :: "(string \<times> json) list \<Rightarrow> json" where
  "object_of ms = JObj (foldl (\<lambda>ps m. set_property (fst m) (snd m) ps) [] ms)"

text \<open>The recursive descent, by structural recursion on a bound for the characters left:
  \<open>parse_value\<close> reads one value, \<open>parse_elements\<close> the elements of a non-empty array up to
  its closing bracket, \<open>parse_members\<close> the members of a non-empty object up to its closing
  brace. Each returns what it read and the text after it.\<close>

fun parse_value :: "nat \<Rightarrow> string \<Rightarrow> (json \<times> string) option"
  and parse_elements :: "nat \<Rightarrow> string \<Rightarrow> (json list \<times> string) option"
  and parse_members :: "nat \<Rightarrow> string \<Rightarrow> ((string \<times> json) list \<times> string) option"
where
  "parse_value 0 cs = None"
| "parse_value (Suc n) cs =
     (case skip_ws cs of
        [] \<Rightarrow> None
      | c # r \<Rightarrow>
          if c = CHR ''n'' then parse_literal ''ull'' JNull r
          else if c = CHR ''t'' then parse_literal ''rue'' (JBool True) r
          else if c = CHR ''f'' then parse_literal ''alse'' (JBool False) r
          else if c = DQ then map_option (\<lambda>(s, t). (JStr s, t)) (parse_chars r)
          else if c = CHR ''['' then
            (case skip_ws r of
               [] \<Rightarrow> None
             | c' # r' \<Rightarrow>
                 if c' = CHR '']'' then Some (JArr [], r')
                 else map_option (\<lambda>(vs, t). (JArr vs, t)) (parse_elements n r))
          else if c = CHR ''{'' then
            (case skip_ws r of
               [] \<Rightarrow> None
             | c' # r' \<Rightarrow>
                 if c' = CHR ''}'' then Some (JObj [], r')
                 else map_option (\<lambda>(ms, t). (object_of ms, t)) (parse_members n r))
          else parse_number (c # r))"
| "parse_elements 0 cs = None"
| "parse_elements (Suc n) cs =
     (case parse_value n cs of
        None \<Rightarrow> None
      | Some (v, r) \<Rightarrow>
          (case skip_ws r of
             [] \<Rightarrow> None
           | c # r' \<Rightarrow>
               if c = CHR '','' then map_option (\<lambda>(vs, t). (v # vs, t)) (parse_elements n r')
               else if c = CHR '']'' then Some ([v], r')
               else None))"
| "parse_members 0 cs = None"
| "parse_members (Suc n) cs =
     (case skip_ws cs of
        [] \<Rightarrow> None
      | q # r \<Rightarrow>
          if q \<noteq> DQ then None
          else
            (case parse_chars r of
               None \<Rightarrow> None
             | Some (k, r1) \<Rightarrow>
                 (case skip_ws r1 of
                    [] \<Rightarrow> None
                  | c # r2 \<Rightarrow>
                      if c \<noteq> CHR '':'' then None
                      else
                        (case parse_value n r2 of
                           None \<Rightarrow> None
                         | Some (v, r3) \<Rightarrow>
                             (case skip_ws r3 of
                                [] \<Rightarrow> None
                              | c' # r4 \<Rightarrow>
                                  if c' = CHR '','' then
                                    map_option (\<lambda>(ms, t). ((k, v) # ms, t)) (parse_members n r4)
                                  else if c' = CHR ''}'' then Some ([(k, v)], r4)
                                  else None)))))"

text \<open>\<^verbatim>\<open>JSON.parse\<close>: one value, then nothing but white space. \<open>None\<close> is the
  \<^verbatim>\<open>SyntaxError\<close> it throws.\<close>

definition JSON_parse :: "string \<Rightarrow> json option" where
  "JSON_parse text =
     (case parse_value (Suc (length text)) text of
        None \<Rightarrow> None
      | Some (v, rest) \<Rightarrow> if skip_ws rest = [] then Some v else None)"

subsection \<open>Coercion to a number\<close>

text \<open>
  \<^verbatim>\<open>parsed as StorageItem\<close> is an unchecked cast, so \<^verbatim>\<open>Date.now() > item.expiresAt\<close> may
  meet any JSON value, or \<^verbatim>\<open>undefined\<close> when the property is missing; the comparison
  coerces it with ToNumber, and is false when that gives NaN (\<open>None\<close> here). Numeric
  strings in another notation than a signed decimal integer lie outside the integer model
  and count as NaN.
\<close>

fun ToString :: "json \<Rightarrow> string" where
  "ToString JNull = ''null''"
| "ToString (JBool b) = (if b then ''true'' else ''false'')"
| "ToString (JNum n) = show_int n"
| "ToString (JStr s) = s"
| "ToString (JArr vs) = join_comma (map (\<lambda>v. if v = JNull then [] else ToString v) vs)"
| "ToString (JObj ps) = ''[object Object]''"

definition is_space :: "char \<Rightarrow> bool" where
  "is_space c \<longleftrightarrow> is_ws c \<or> c = CHR 0x0B \<or> c = CHR 0x0C \<or> c = CHR 0xA0"

definition trim :: "string \<Rightarrow> string" where
  "trim s = rev (dropWhile is_space (rev (dropWhile is_space s)))"

definition StringToNumber :: "string \<Rightarrow> int option" where
  "StringToNumber s =
     (let t = trim s
      in if t = [] then Some 0
         else
           let neg = (hd t = CHR ''-'');
               ds = (if hd t = CHR ''-'' \<or> hd t = CHR ''+'' then tl t else t)
           in if ds \<noteq> [] \<and> list_all is_digit ds
              then Some (if neg then - int (digits_val ds) else int (digits_val ds))
              else None)"

fun ToNumber :: "json option \<Rightarrow> int option" where
  "ToNumber None = None"
| "ToNumber (Some JNull) = Some 0"
| "ToNumber (Some (JBool b)) = Some (if b then 1 else 0)"
| "ToNumber (Some (JNum n)) = Some n"
| "ToNumber (Some (JStr s)) = StringToNumber s"
| "ToNumber (Some (JArr vs)) = StringToNumber (ToString (JArr vs))"
| "ToNumber (Some (JObj ps)) = StringToNumber (ToString (JObj ps))"

section \<open>The underlying store\<close>

text \<open>
  Modelled from the spec: the raw key-value store (the browser's \<^verbatim>\<open>Storage\<close> object) is an
  external collaborator, with the five primitives \<^verbatim>\<open>length\<close>, \<^verbatim>\<open>key(i)\<close>,
  \<^verbatim>\<open>getItem\<close>, \<^verbatim>\<open>setItem\<close> and \<^verbatim>\<open>removeItem\<close>. It is a flat mapping from string keys to
  string values, enumerated by position: here the list of its entries, where a new key goes
  to the end, an overwritten key keeps its place, and the entries after a removed one move
  up. A write is rejected with \<^verbatim>\<open>QuotaExceededError\<close> when the store would hold more than
  \<open>quota\<close> characters, and every primitive faults when the store is not \<open>available\<close>.
\<close>

datatype js_error = QuotaExceededError | SecurityError

record Storage =
  items :: "(string \<times> string) list"
  quota :: "nat option"
  available :: bool

fun put_item :: "string \<Rightarrow> string \<Rightarrow> (string \<times> string) list \<Rightarrow> (string \<times> string) list" where
  "put_item k v [] = [(k, v)]"
| "put_item k v (p # ps) = (if fst p = k then (k, v) # ps else p # put_item k v ps)"

definition used_chars :: "(string \<times> string) list \<Rightarrow> nat" where
  "used_chars xs = sum_list (map (\<lambda>p. length (fst p) + length (snd p)) xs)"

definition storage_length :: "Storage \<Rightarrow> js_error + nat" where
  "storage_length s = (if available s then Inr (length (items s)) else Inl SecurityError)"

definition storage_key :: "Storage \<Rightarrow> nat \<Rightarrow> js_error + string option" where
  "storage_key s i =
     (if \<not> available s then Inl SecurityError
      else if i < length (items s) then Inr (Some (fst (items s ! i)))
      else Inr None)"

definition getItem :: "Storage \<Rightarrow> string \<Rightarrow> js_error + string option" where
  "getItem s k = (if available s then Inr (map_of (items s) k) else Inl SecurityError)"

definition setItem :: "Storage \<Rightarrow> string \<Rightarrow> string \<Rightarrow> js_error + Storage" where
  "setItem s k v =
     (if \<not> available s then Inl SecurityError
      else
        let xs = put_item k v (items s)
        in case quota s of
             None \<Rightarrow> Inr (s\<lparr>items := xs\<rparr>)
           | Some q \<Rightarrow> if q < used_chars xs then Inl QuotaExceededError else Inr (s\<lparr>items := xs\<rparr>))"

definition removeItem :: "Storage \<Rightarrow> string \<Rightarrow> js_error + Storage" where
  "removeItem s k =
     (if available s then Inr (s\<lparr>items := filter (\<lambda>p. fst p \<noteq> k) (items s)\<rparr>)
      else Inl SecurityError)"

section \<open>StoragePlus\<close>

text \<open>
  The instance holds its configuration; the store it wraps is shared with everything else
  on the page, so every operation takes the store and returns it. \<^verbatim>\<open>Date.now()\<close> is the
  argument \<open>now\<close>, and \<^verbatim>\<open>console.warn\<close> is the list of messages an operation returns last.
  A payload is a JSON value.
\<close>

record StoragePlusOptions =
  opt_namespace :: "string option"
  opt_defaultTTL :: "int option"
  opt_enableWarnings :: "bool option"

record StorageItem =
  item_value :: json
  item_expiresAt :: "json option"
  item_createdAt :: json

record SetOptions =
  ttl :: "int option"

record StoragePlus =
  namespace :: string
  defaultTTL :: "int option"
  enableWarnings :: bool

definition warn :: "StoragePlus \<Rightarrow> string \<Rightarrow> string list" where
  "warn this msg = (if enableWarnings this then [msg] else [])"

definition testStorage :: "StoragePlus \<Rightarrow> Storage \<Rightarrow> Storage \<times> string list" where
  "testStorage this s =
     (let testKey = namespace this @ ''__test__''
      in case setItem s testKey ''test'' of
           Inl e \<Rightarrow> (s, warn this ''StoragePlus: Storage is not available or in private mode'')
         | Inr s1 \<Rightarrow>
             (case removeItem s1 testKey of
                Inl e \<Rightarrow> (s1, warn this ''StoragePlus: Storage is not available or in private mode'')
              | Inr s2 \<Rightarrow> (s2, [])))"

text \<open>The constructor: \<^verbatim>\<open>options.namespace ? `${options.namespace}:` : ''\<close>,
  \<^verbatim>\<open>options.defaultTTL || null\<close>, \<^verbatim>\<open>options.enableWarnings ?? true\<close>, then the probe.\<close>

definition new_StoragePlus :: "Storage \<Rightarrow> StoragePlusOptions \<Rightarrow> StoragePlus \<times> Storage \<times> string list" where
  "new_StoragePlus storage options =
     (let this = \<lparr>namespace = (case opt_namespace options of
                                   None \<Rightarrow> []
                                 | Some ns \<Rightarrow> if ns = [] then [] else ns @ '':''),
                   defaultTTL = (case opt_defaultTTL options of
                                   None \<Rightarrow> None
                                 | Some t \<Rightarrow> if t = 0 then None else Some t),
                   enableWarnings = (case opt_enableWarnings options of
                                   None \<Rightarrow> True
                                 | Some b \<Rightarrow> b)\<rparr>
      in case testStorage this storage of (s, w) \<Rightarrow> (this, s, w))"

definition getKey :: "StoragePlus \<Rightarrow> string \<Rightarrow> string" where
  "getKey this key = namespace this @ key"

definition isExpired :: "int \<Rightarrow> StorageItem \<Rightarrow> bool" where
  "isExpired now item =
     (if item_expiresAt item = Some JNull then False
      else case ToNumber (item_expiresAt item) of
             None \<Rightarrow> False
           | Some e \<Rightarrow> e < now)"

text \<open>\<^verbatim>\<open>typeof parsed === 'object'\<close> holds of objects, arrays and \<^verbatim>\<open>null\<close>; on \<^verbatim>\<open>null\<close>
  the \<^verbatim>\<open>in\<close> operator throws into the \<^verbatim>\<open>catch\<close>, and an array has neither property.\<close>

definition parseStoredData :: "string \<Rightarrow> StorageItem option" where
  "parseStoredData data =
     (case JSON_parse data of
        None \<Rightarrow> None
      | Some parsed \<Rightarrow>
          (case parsed of
             JObj ps \<Rightarrow>
               (case (map_of ps ''value'', map_of ps ''createdAt'') of
                  (Some v, Some c) \<Rightarrow>
                    Some \<lparr>item_value = v, item_expiresAt = map_of ps ''expiresAt'', item_createdAt = c\<rparr>
                | _ \<Rightarrow> None)
           | _ \<Rightarrow> None))"

text \<open>The object literal \<^verbatim>\<open>{ value, expiresAt, createdAt }\<close> as \<^verbatim>\<open>JSON.stringify\<close> sees it:
  a property that is \<^verbatim>\<open>undefined\<close> is left out.\<close>

definition json_of_item :: "StorageItem \<Rightarrow> json" where
  "json_of_item item =
     JObj ((''value'', item_value item)
           # (case item_expiresAt item of None \<Rightarrow> [] | Some e \<Rightarrow> [(''expiresAt'', e)])
           @ [(''createdAt'', item_createdAt item)])"

definition set_sp :: "StoragePlus \<Rightarrow> int \<Rightarrow> Storage \<Rightarrow> string \<Rightarrow> json \<Rightarrow> SetOptions \<Rightarrow> bool \<times> Storage \<times> string list" where
  "set_sp this now s key v options =
     (let t = (case ttl options of None \<Rightarrow> defaultTTL this | Some x \<Rightarrow> Some x);
          expires = (case t of None \<Rightarrow> JNull | Some x \<Rightarrow> if x = 0 then JNull else JNum (now + x));
          item = \<lparr>item_value = v, item_expiresAt = Some expires, item_createdAt = JNum now\<rparr>;
          fullKey = getKey this key
      in case setItem s fullKey (JSON_stringify (json_of_item item)) of
           Inr s' \<Rightarrow> (True, s', [])
         | Inl error \<Rightarrow>
             (False, s,
              if error = QuotaExceededError then warn this ''StoragePlus: Storage quota exceeded''
              else warn this ''StoragePlus: Failed to set item''))"

definition get :: "StoragePlus \<Rightarrow> int \<Rightarrow> Storage \<Rightarrow> string \<Rightarrow> json \<times> Storage \<times> string list" where
  "get this now s key =
     (let fullKey = getKey this key
      in case getItem s fullKey of
           Inl error \<Rightarrow> (JNull, s, warn this ''StoragePlus: Failed to get item'')
         | Inr None \<Rightarrow> (JNull, s, [])
         | Inr (Some data) \<Rightarrow>
             (case parseStoredData data of
                None \<Rightarrow>
                  (case removeItem s fullKey of
                     Inl error \<Rightarrow> (JNull, s, warn this ''StoragePlus: Failed to get item'')
                   | Inr s' \<Rightarrow> (JNull, s', []))
              | Some item \<Rightarrow>
                  if isExpired now item then
                    (case removeItem s fullKey of
                       Inl error \<Rightarrow> (JNull, s, warn this ''StoragePlus: Failed to get item'')
                     | Inr s' \<Rightarrow> (JNull, s', []))
                  else (item_value item, s, [])))"

definition has :: "StoragePlus \<Rightarrow> int \<Rightarrow> Storage \<Rightarrow> string \<Rightarrow> bool \<times> Storage \<times> string list" where
  "has this now s key = (case get this now s key of (v, s', w) \<Rightarrow> (v \<noteq> JNull, s', w))"

definition remove_sp :: "StoragePlus \<Rightarrow> Storage \<Rightarrow> string \<Rightarrow> bool \<times> Storage \<times> string list" where
  "remove_sp this s key =
     (case removeItem s (getKey this key) of
        Inr s' \<Rightarrow> (True, s', [])
      | Inl error \<Rightarrow> (False, s, warn this ''StoragePlus: Failed to remove item''))"

definition startsWith :: "string \<Rightarrow> string \<Rightarrow> bool" where
  "startsWith str p \<longleftrightarrow> take (length p) str = p"

text \<open>\<^verbatim>\<open>clear\<close>: the first pass collects, over the indices below \<^verbatim>\<open>storage.length\<close>, the keys
  that pass \<^verbatim>\<open>key && key.startsWith(this.namespace)\<close>; the second removes them.\<close>

function clear_collect :: "StoragePlus \<Rightarrow> Storage \<Rightarrow> nat \<Rightarrow> string list \<Rightarrow> js_error + string list" where
  "clear_collect this s i keysToRemove =
     (case storage_length s of
        Inl e \<Rightarrow> Inl e
      | Inr n \<Rightarrow>
          if i < n then
            (case storage_key s i of
               Inl e \<Rightarrow> Inl e
             | Inr None \<Rightarrow> clear_collect this s (i + 1) keysToRemove
             | Inr (Some key) \<Rightarrow>
                 if key \<noteq> [] \<and> startsWith key (namespace this)
                 then clear_collect this s (i + 1) (keysToRemove @ [key])
                 else clear_collect this s (i + 1) keysToRemove)
          else Inr keysToRemove)"
  by pat_completeness auto
termination
  by (relation "measure (\<lambda>(this, s, i, ks). length (items s) - i)")
     (auto simp: storage_length_def split: if_splits)

declare clear_collect.simps [simp del]

text \<open>\<^verbatim>\<open>keysToRemove.forEach(key => this.storage.removeItem(key))\<close>: a removal that
  faults ends the pass, and the removals made before it stay.\<close>

fun remove_each :: "Storage \<Rightarrow> string list \<Rightarrow> js_error option \<times> Storage" where
  "remove_each s [] = (None, s)"
| "remove_each s (key # ks) =
     (case removeItem s key of
        Inl e \<Rightarrow> (Some e, s)
      | Inr s' \<Rightarrow> remove_each s' ks)"

definition clear :: "StoragePlus \<Rightarrow> Storage \<Rightarrow> bool \<times> Storage \<times> string list" where
  "clear this s =
     (case clear_collect this s 0 [] of
        Inl e \<Rightarrow> (False, s, warn this ''StoragePlus: Failed to clear storage'')
      | Inr keysToRemove \<Rightarrow>
          (case remove_each s keysToRemove of
             (Some e, s') \<Rightarrow> (False, s', warn this ''StoragePlus: Failed to clear storage'')
           | (None, s') \<Rightarrow> (True, s', [])))"

lemma get_length_items:
  "get this now s key = (v, s', w) \<Longrightarrow> length (items s') \<le> length (items s)"
  by (auto simp: get_def Let_def removeItem_def
           split: sum.splits option.splits if_splits)

lemma has_length_items:
  "has this now s key = (b, s', w) \<Longrightarrow> length (items s') \<le> length (items s)"
  by (auto simp: has_def split: prod.splits dest: get_length_items)

text \<open>\<^verbatim>\<open>keys\<close>: one pass over the indices below \<^verbatim>\<open>storage.length\<close>, which is read again
  at every turn; \<^verbatim>\<open>has\<close> runs inside the pass and may remove the entry it looks at.\<close>

function keys_loop ::
  "StoragePlus \<Rightarrow> int \<Rightarrow> Storage \<Rightarrow> nat \<Rightarrow> string list \<Rightarrow> string list
     \<Rightarrow> js_error option \<times> string list \<times> Storage \<times> string list" where
  "keys_loop this now s i keys w =
     (case storage_length s of
        Inl e \<Rightarrow> (Some e, keys, s, w)
      | Inr n \<Rightarrow>
          if i < n then
            (case storage_key s i of
               Inl e \<Rightarrow> (Some e, keys, s, w)
             | Inr None \<Rightarrow> keys_loop this now s (i + 1) keys w
             | Inr (Some fullKey) \<Rightarrow>
                 if fullKey \<noteq> [] \<and> startsWith fullKey (namespace this) then
                   (case has this now s (drop (length (namespace this)) fullKey) of
                      (b, s', w') \<Rightarrow>
                        keys_loop this now s' (i + 1)
                          (if b then keys @ [drop (length (namespace this)) fullKey] else keys)
                          (w @ w'))
                 else keys_loop this now s (i + 1) keys w)
          else (None, keys, s, w))"
  by pat_completeness auto
termination
proof (relation "measure (\<lambda>(this, now, s, i, ks, w). length (items s) - i)", goal_cases)
  case 1
  show ?case by simp
next
  case (2 this now s i keys w n)
  then show ?case by (auto simp: storage_length_def split: if_splits)
next
  case (3 this now s i keys w n x fullKey b rest s' w')
  then have "length (items s') \<le> length (items s)"
    using has_length_items [of this now s "drop (length (namespace this)) fullKey" b s' w']
    by simp
  moreover from 3 have "i < length (items s)"
    by (auto simp: storage_length_def split: if_splits)
  ultimately show ?case by simp
next
  case (4 this now s i keys w n x fullKey)
  then show ?case by (auto simp: storage_length_def split: if_splits)
qed

declare keys_loop.simps [simp del]

definition keys :: "StoragePlus \<Rightarrow> int \<Rightarrow> Storage \<Rightarrow> string list \<times> Storage \<times> string list" where
  "keys this now s =
     (case keys_loop this now s 0 [] [] of
        (None, ks, s', w) \<Rightarrow> (ks, s', w)
      | (Some e, ks, s', w) \<Rightarrow> (ks, s', w @ warn this ''StoragePlus: Failed to get keys''))"

function size_loop :: "StoragePlus \<Rightarrow> Storage \<Rightarrow> nat \<Rightarrow> nat \<Rightarrow> js_error option \<times> nat" where
  "size_loop this s i totalSize =
     (case storage_length s of
        Inl e \<Rightarrow> (Some e, totalSize)
      | Inr n \<Rightarrow>
          if i < n then
            (case storage_key s i of
               Inl e \<Rightarrow> (Some e, totalSize)
             | Inr None \<Rightarrow> size_loop this s (i + 1) totalSize
             | Inr (Some key) \<Rightarrow>
                 if key \<noteq> [] \<and> startsWith key (namespace this) then
                   (case getItem s key of
                      Inl e \<Rightarrow> (Some e, totalSize)
                    | Inr None \<Rightarrow> size_loop this s (i + 1) totalSize
                    | Inr (Some v) \<Rightarrow>
                        if v \<noteq> [] then size_loop this s (i + 1) (totalSize + (length key + length v))
                        else size_loop this s (i + 1) totalSize)
                 else size_loop this s (i + 1) totalSize)
          else (None, totalSize))"
  by pat_completeness auto
termination
  by (relation "measure (\<lambda>(this, s, i, t). length (items s) - i)")
     (auto simp: storage_length_def split: if_splits)

declare size_loop.simps [simp del]

definition size_sp :: "StoragePlus \<Rightarrow> Storage \<Rightarrow> nat \<times> Storage \<times> string list" where
  "size_sp this s =
     (case size_loop this s 0 0 of
        (None, totalSize) \<Rightarrow> (totalSize, s, [])
      | (Some e, totalSize) \<Rightarrow> (totalSize, s, warn this ''StoragePlus: Failed to calculate size''))"

function cleanup_collect ::
  "StoragePlus \<Rightarrow> int \<Rightarrow> Storage \<Rightarrow> nat \<Rightarrow> string list \<Rightarrow> js_error + string list" where
  "cleanup_collect this now s i keysToRemove =
     (case storage_length s of
        Inl e \<Rightarrow> Inl e
      | Inr n \<Rightarrow>
          if i < n then
            (case storage_key s i of
               Inl e \<Rightarrow> Inl e
             | Inr None \<Rightarrow> cleanup_collect this now s (i + 1) keysToRemove
             | Inr (Some fullKey) \<Rightarrow>
                 if fullKey \<noteq> [] \<and> startsWith fullKey (namespace this) then
                   (case getItem s fullKey of
                      Inl e \<Rightarrow> Inl e
                    | Inr None \<Rightarrow> cleanup_collect this now s (i + 1) keysToRemove
                    | Inr (Some data) \<Rightarrow>
                        if data \<noteq> [] then
                          (case parseStoredData data of
                             None \<Rightarrow> cleanup_collect this now s (i + 1) keysToRemove
                           | Some item \<Rightarrow>
                               if isExpired now item
                               then cleanup_collect this now s (i + 1) (keysToRemove @ [fullKey])
                               else cleanup_collect this now s (i + 1) keysToRemove)
                        else cleanup_collect this now s (i + 1) keysToRemove)
                 else cleanup_collect this now s (i + 1) keysToRemove)
          else Inr keysToRemove)"
  by pat_completeness auto
termination
  by (relation "measure (\<lambda>(this, now, s, i, ks). length (items s) - i)")
     (auto simp: storage_length_def split: if_splits)

declare cleanup_collect.simps [simp del]

text \<open>The second pass of \<^verbatim>\<open>cleanup\<close> counts as it removes, and the count made so far is
  what \<^verbatim>\<open>cleanup\<close> returns when a removal faults.\<close>

fun cleanup_remove :: "Storage \<Rightarrow> nat \<Rightarrow> string list \<Rightarrow> js_error option \<times> Storage \<times> nat" where
  "cleanup_remove s removedCount [] = (None, s, removedCount)"
| "cleanup_remove s removedCount (key # ks) =
     (case removeItem s key of
        Inl e \<Rightarrow> (Some e, s, removedCount)
      | Inr s' \<Rightarrow> cleanup_remove s' (removedCount + 1) ks)"

definition cleanup :: "StoragePlus \<Rightarrow> int \<Rightarrow> Storage \<Rightarrow> nat \<times> Storage \<times> string list" where
  "cleanup this now s =
     (case cleanup_collect this now s 0 [] of
        Inl e \<Rightarrow> (0, s, warn this ''StoragePlus: Failed to cleanup expired items'')
      | Inr keysToRemove \<Rightarrow>
          (case cleanup_remove s 0 keysToRemove of
             (None, s', removedCount) \<Rightarrow> (removedCount, s', [])
           | (Some e, s', removedCount) \<Rightarrow>
               (removedCount, s', warn this ''StoragePlus: Failed to cleanup expired items'')))"

text \<open>The descriptor of \<^verbatim>\<open>getInfo\<close>: \<^verbatim>\<open>{ exists: false }\<close>, or
  \<^verbatim>\<open>{ exists: true, createdAt, expiresAt, size }\<close>.\<close>

datatype ItemInfo =
    NotExists
  | Exists json "json option" nat

definition getInfo :: "StoragePlus \<Rightarrow> int \<Rightarrow> Storage \<Rightarrow> string \<Rightarrow> ItemInfo \<times> Storage \<times> string list" where
  "getInfo this now s key =
     (let fullKey = getKey this key
      in case getItem s fullKey of
           Inl error \<Rightarrow> (NotExists, s, warn this ''StoragePlus: Failed to get item info'')
         | Inr None \<Rightarrow> (NotExists, s, [])
         | Inr (Some data) \<Rightarrow>
             (case parseStoredData data of
                None \<Rightarrow> (NotExists, s, [])
              | Some item \<Rightarrow>
                  if isExpired now item then
                    (case removeItem s fullKey of
                       Inl error \<Rightarrow> (NotExists, s, warn this ''StoragePlus: Failed to get item info'')
                     | Inr s' \<Rightarrow> (NotExists, s', []))
                  else (Exists (item_createdAt item) (item_expiresAt item) (length data), s, [])))"

section \<open>Notions for the statements\<close>

text \<open>A full key passes the test \<^verbatim>\<open>key && key.startsWith(this.namespace)\<close> of the four
  passes over the store.\<close>

definition in_namespace :: "StoragePlus \<Rightarrow> string \<Rightarrow> bool" where
  "in_namespace this k \<longleftrightarrow> k \<noteq> [] \<and> startsWith k (namespace this)"

text \<open>A stored text is readable at a time when it is a well-formed envelope that has not
  expired.\<close>

definition readable :: "int \<Rightarrow> string \<Rightarrow> bool" where
  "readable now data \<longleftrightarrow>
     (case parseStoredData data of None \<Rightarrow> False | Some item \<Rightarrow> \<not> isExpired now item)"

text \<open>
  A text that does not decode into an envelope. The test of the shape is the one of
  \<^verbatim>\<open>parseStoredData\<close>, \<^verbatim>\<open>typeof parsed === 'object' && 'value' in parsed && 'createdAt' in
  parsed\<close>, on the parsed value: an object with at least the properties \<^verbatim>\<open>value\<close> and
  \<^verbatim>\<open>createdAt\<close>.

  The parser of this model rejects two kinds of text that \<^verbatim>\<open>JSON.parse\<close> accepts: a number
  with a fraction or an exponent, where a digit is followed by \<^verbatim>\<open>.\<close>, \<^verbatim>\<open>e\<close> or \<^verbatim>\<open>E\<close>, and
  a string with a unicode escape, a backslash followed by \<^verbatim>\<open>u\<close>, above code unit 255.
  Everywhere else the two agree, on whether the text is JSON and on the value. So a text
  that this parser rejects counts as \<open>corrupt\<close> only when it has neither pattern
  (\<open>outside_model\<close> is false of it): then \<^verbatim>\<open>JSON.parse\<close> throws on it as well. A text that
  this parser accepts is \<open>corrupt\<close> when the parsed value fails the test of the shape. A
  text whose envelope holds the number \<^verbatim>\<open>1.5\<close> is not \<open>corrupt\<close>.
\<close>

fun outside_model :: "string \<Rightarrow> bool" where
  "outside_model (a # b # cs) \<longleftrightarrow>
     (is_digit a \<and> (b = CHR ''.'' \<or> b = CHR ''e'' \<or> b = CHR ''E''))
     \<or> (a = BS \<and> b = CHR ''u'')
     \<or> outside_model (b # cs)"
| "outside_model _ \<longleftrightarrow> False"

definition well_formed_envelope :: "json \<Rightarrow> bool" where
  "well_formed_envelope parsed \<longleftrightarrow>
     (case parsed of
        JObj ps \<Rightarrow> ''value'' \<in> set (map fst ps) \<and> ''createdAt'' \<in> set (map fst ps)
      | _ \<Rightarrow> False)"

definition corrupt :: "string \<Rightarrow> bool" where
  "corrupt data \<longleftrightarrow>
     (case JSON_parse data of
        None \<Rightarrow> \<not> outside_model data
      | Some parsed \<Rightarrow> \<not> well_formed_envelope parsed)"

text \<open>What the pass of \<open>size\<close> adds for a key, and the test of the pass of \<open>cleanup\<close>.\<close>

definition entry_size :: "Storage \<Rightarrow> string \<Rightarrow> nat" where
  "entry_size s k =
     (case map_of (items s) k of
        None \<Rightarrow> 0
      | Some v \<Rightarrow> if v \<noteq> [] then length k + length v else 0)"

definition stale :: "int \<Rightarrow> Storage \<Rightarrow> string \<Rightarrow> bool" where
  "stale now s k \<longleftrightarrow>
     (case map_of (items s) k of
        None \<Rightarrow> False
      | Some d \<Rightarrow> d \<noteq> [] \<and> (case parseStoredData d of None \<Rightarrow> False | Some item \<Rightarrow> isExpired now item))"

text \<open>An entry under the prefix whose text is a well-formed envelope that has expired.\<close>

definition expired_entry :: "StoragePlus \<Rightarrow> int \<Rightarrow> string \<times> string \<Rightarrow> bool" where
  "expired_entry this now p \<longleftrightarrow>
     startsWith (fst p) (namespace this)
     \<and> (case parseStoredData (snd p) of None \<Rightarrow> False | Some item \<Rightarrow> isExpired now item)"

text \<open>What the caller and the store see of an operation: the value returned and the store
  left, without the warnings.\<close>

definition outcome :: "'a \<times> Storage \<times> string list \<Rightarrow> 'a \<times> Storage" where
  "outcome r = (fst r, fst (snd r))"

text \<open>The instances and the store of the examples: \<^verbatim>\<open>new StoragePlus(storage,
  { namespace: 'app' })\<close>, \<^verbatim>\<open>new StoragePlus(storage)\<close>, and a store with no entry and no
  quota.\<close>

definition app_instance :: StoragePlus where
  "app_instance = \<lparr>namespace = ''app:'', defaultTTL = None, enableWarnings = True\<rparr>"

definition plain_instance :: StoragePlus where
  "plain_instance = \<lparr>namespace = [], defaultTTL = None, enableWarnings = True\<rparr>"

definition empty_store :: Storage where
  "empty_store = \<lparr>items = [], quota = None, available = True\<rparr>"




text \<open>Stores made through the library itself. On an instance without a namespace,
  \<^verbatim>\<open>set('', 1)\<close> and \<^verbatim>\<open>set('', 1, { ttl: 5 })\<close> at time 0: the full key is the empty
  string. On the instance of the namespace \<^verbatim>\<open>app\<close>, \<^verbatim>\<open>set('a', 1, { ttl: 5 })\<close> and then
  \<^verbatim>\<open>set('b', 2)\<close> at time 0.\<close>

definition empty_key_store :: Storage where
  "empty_key_store = fst (snd (set_sp plain_instance 0 empty_store [] (JNum 1) \<lparr>ttl = None\<rparr>))"

definition expiring_empty_key_store :: Storage where
  "expiring_empty_key_store = fst (snd (set_sp plain_instance 0 empty_store [] (JNum 1) \<lparr>ttl = Some 5\<rparr>))"

definition two_entry_store :: Storage where
  "two_entry_store =
     fst (snd (set_sp app_instance 0
       (fst (snd (set_sp app_instance 0 empty_store ''a'' (JNum 1) \<lparr>ttl = Some 5\<rparr>)))
       ''b'' (JNum 2) \<lparr>ttl = None\<rparr>))"

section \<open>JSON.parse after JSON.stringify\<close>

subsection \<open>Numbers\<close>

lemma of_char_digit_char: "d < 10 \<Longrightarrow> (of_char (digit_char d) :: nat) = 48 + d"
  by (simp add: digit_char_def)

lemma is_digit_digit_char: "d < 10 \<Longrightarrow> is_digit (digit_char d)"
  by (simp add: is_digit_def of_char_digit_char)

lemma show_nat_digits: "c \<in> set (show_nat n) \<Longrightarrow> is_digit c"
proof (induction n rule: show_nat.induct)
  case (1 n)
  then show ?case
    by (subst (asm) (2) show_nat.simps) (auto simp: is_digit_digit_char split: if_splits)
qed

lemma show_nat_not_Nil: "show_nat n \<noteq> []"
  by (subst show_nat.simps) simp

lemma digits_val_snoc: "digits_val (ds @ [c]) = 10 * digits_val ds + (of_char c - 48)"
  by (simp add: digits_val_def)

lemma digits_val_show_nat: "digits_val (show_nat n) = n"
proof (induction n rule: show_nat.induct)
  case (1 n)
  show ?case
  proof (cases "n < 10")
    case True
    then show ?thesis
      by (subst show_nat.simps) (simp add: digits_val_def of_char_digit_char)
  next
    case False
    with 1 show ?thesis
      by (subst show_nat.simps) (simp add: digits_val_snoc of_char_digit_char)
  qed
qed

lemma hd_show_nat_pos: "0 < n \<Longrightarrow> hd (show_nat n) \<noteq> CHR ''0''"
proof (induction n rule: show_nat.induct)
  case (1 n)
  show ?case
  proof (cases "n < 10")
    case True
    with 1(2) have "(of_char (digit_char n) :: nat) \<noteq> of_char (CHR ''0'')"
      by (simp add: of_char_digit_char)
    then have "digit_char n \<noteq> CHR ''0''" by auto
    with True show ?thesis by (subst show_nat.simps) simp
  next
    case False
    then have "0 < n div 10" by simp
    with 1 False have "hd (show_nat (n div 10)) \<noteq> CHR ''0''" by simp
    with False show ?thesis
      by (subst show_nat.simps) (simp add: show_nat_not_Nil)
  qed
qed

lemma length_show_nat_small: "1 < length (show_nat n) \<Longrightarrow> 0 < n"
  by (subst (asm) show_nat.simps) (auto split: if_splits)

definition nd :: "string \<Rightarrow> bool" where
  "nd rest \<longleftrightarrow> (case rest of [] \<Rightarrow> True | c # _ \<Rightarrow> \<not> is_digit c)"

lemma takeWhile_digits:
  "nd rest \<Longrightarrow> takeWhile is_digit (show_nat n @ rest) = show_nat n"
  by (cases rest) (auto simp: nd_def takeWhile_append show_nat_digits takeWhile_eq_all_conv[THEN iffD2] )

lemma dropWhile_digits:
  "nd rest \<Longrightarrow> dropWhile is_digit (show_nat n @ rest) = rest"
  by (cases rest) (auto simp: nd_def dropWhile_append show_nat_digits)

lemma hd_show_nat_digit: "is_digit (hd (show_nat n))"
  using show_nat_digits [of "hd (show_nat n)" n] show_nat_not_Nil [of n] by simp

lemma minus_not_digit: "\<not> is_digit (CHR ''-'')"
  by (simp add: is_digit_def)

lemma parse_number_show_int:
  assumes "nd rest"
  shows "parse_number (show_int i @ rest) = Some (JNum i, rest)"
proof (cases "i < 0")
  case True
  have "\<not> (1 < length (show_nat (nat (- i))) \<and> hd (show_nat (nat (- i))) = CHR ''0'')"
    using hd_show_nat_pos length_show_nat_small by blast
  with True assms show ?thesis
    by (simp add: parse_number_def show_int_def Let_def takeWhile_digits dropWhile_digits
        show_nat_not_Nil digits_val_show_nat)
next
  case False
  have ne: "hd (show_nat (nat i) @ rest) \<noteq> CHR ''-''"
    using hd_show_nat_digit [of "nat i"] minus_not_digit show_nat_not_Nil [of "nat i"]
    by (auto simp: hd_append)
  have "\<not> (1 < length (show_nat (nat i)) \<and> hd (show_nat (nat i)) = CHR ''0'')"
    using hd_show_nat_pos length_show_nat_small by blast
  with False assms ne show ?thesis
    by (simp add: parse_number_def show_int_def Let_def takeWhile_digits dropWhile_digits
        show_nat_not_Nil digits_val_show_nat)
qed

subsection \<open>Strings\<close>

lemma hex_val_hex_char: "d < 16 \<Longrightarrow> hex_val (hex_char d) = Some d"
  by (auto simp: hex_val_def hex_char_def Let_def)

lemma of_char_lt_256: "(of_char c :: nat) < 256"
  by simp

lemma unescape_u_control:
  assumes "(of_char c :: nat) < 32"
  shows "unescape_u (CHR ''0'') (CHR ''0'') (hex_char (of_char c div 16)) (hex_char (of_char c mod 16)) = Some c"
proof -
  have a: "hex_val (hex_char ((of_char c :: nat) div 16)) = Some (of_char c div 16)"
    using assms by (intro hex_val_hex_char) simp
  have b: "hex_val (hex_char ((of_char c :: nat) mod 16)) = Some (of_char c mod 16)"
    by (intro hex_val_hex_char) simp
  have z: "hex_val (CHR ''0'') = Some 0"
    by (simp add: hex_val_def)
  have "char_of (16 * ((of_char c :: nat) div 16) + of_char c mod 16) = c"
    by simp
  with a b z show ?thesis
    by (simp add: unescape_u_def)
qed

lemma parse_chars_escape:
  "parse_chars (escape_char c @ cs) = map_option (\<lambda>(s, t). (c # s, t)) (parse_chars cs)"
proof (cases "(of_char c :: nat) < 32 \<and> c \<notin> {CHR 0x08, CHR 0x09, CHR 0x0A, CHR 0x0C, CHR 0x0D}")
  case True
  then have "c \<noteq> DQ" "c \<noteq> BS" by auto
  with True show ?thesis
    by (simp add: escape_char_def unescape_u_control)
next
  case False
  then show ?thesis
    by (auto simp: escape_char_def unescape_simple_def)
qed

lemma parse_chars_quote:
  "parse_chars (concat (map escape_char s) @ DQ # rest) = Some (s, rest)"
  by (induction s) (simp_all add: parse_chars_escape del: parse_chars.simps(2), simp)

lemma parse_chars_JSON_quote:
  "parse_chars (tl (JSON_quote s) @ rest) = Some (s, rest)"
  using parse_chars_quote [of s rest] by (simp add: JSON_quote_def)

subsection \<open>Values\<close>

definition value_start :: "char \<Rightarrow> bool" where
  "value_start c \<longleftrightarrow> c \<in> set ''ntf-[{'' \<or> c = DQ \<or> is_digit c"

lemma value_start_not_ws: "value_start c \<Longrightarrow> \<not> is_ws c"
  by (auto simp: value_start_def is_ws_def is_digit_def)

lemma value_start_not_close: "value_start c \<Longrightarrow> c \<noteq> CHR '']'' \<and> c \<noteq> CHR ''}''"
  by (auto simp: value_start_def is_digit_def)

lemma show_int_start: "\<exists>c cs. show_int i = c # cs \<and> (c = CHR ''-'' \<or> is_digit c)"
proof (cases "i < 0")
  case True
  then show ?thesis by (simp add: show_int_def)
next
  case False
  obtain c cs where "show_nat (nat i) = c # cs"
    using show_nat_not_Nil [of "nat i"] by (cases "show_nat (nat i)") auto
  moreover from this have "is_digit c"
    using show_nat_digits [of c "nat i"] by simp
  ultimately show ?thesis using False by (simp add: show_int_def)
qed

lemma JSON_stringify_start: "\<exists>c cs. JSON_stringify v = c # cs \<and> value_start c"
proof (cases v)
  case (JNum i)
  then show ?thesis using show_int_start [of i] by (auto simp: value_start_def)
qed (auto simp: value_start_def JSON_quote_def)

lemma skip_ws_Cons: "\<not> is_ws c \<Longrightarrow> skip_ws (c # cs) = c # cs"
  by (simp add: skip_ws_def)

lemma skip_ws_stringify: "skip_ws (JSON_stringify v @ rest) = JSON_stringify v @ rest"
  using JSON_stringify_start [of v] by (auto simp: skip_ws_Cons value_start_not_ws)

lemma nd_simps: "nd []" "nd (CHR '','' # r)" "nd (CHR '']'' # r)" "nd (CHR ''}'' # r)"
  by (simp_all add: nd_def is_digit_def)

text \<open>The round trip of one value, as the property the induction carries: with enough
  fuel, and when no digit follows, \<open>parse_value\<close> reads back the value and stops after it.\<close>

definition rt :: "json \<Rightarrow> bool" where
  "rt v \<longleftrightarrow> (\<forall>n rest. length (JSON_stringify v) \<le> n \<longrightarrow> nd rest \<longrightarrow>
       parse_value n (JSON_stringify v @ rest) = Some (v, rest))"

lemma rtD: "rt v \<Longrightarrow> length (JSON_stringify v) \<le> n \<Longrightarrow> nd rest \<Longrightarrow>
       parse_value n (JSON_stringify v @ rest) = Some (v, rest)"
  by (simp add: rt_def)

lemma parse_elements_join:
  assumes "\<And>v. v \<in> set vs \<Longrightarrow> rt v" and "vs \<noteq> []"
    and "length (join_comma (map JSON_stringify vs)) < n"
  shows "parse_elements n (join_comma (map JSON_stringify vs) @ CHR '']'' # rest) = Some (vs, rest)"
  using assms
proof (induction vs arbitrary: n)
  case Nil
  then show ?case by simp
next
  case (Cons v vs)
  from Cons.prems(3) obtain m where n: "n = Suc m" by (cases n) auto
  show ?case
  proof (cases vs)
    case Nil
    with Cons.prems n have "parse_value m (JSON_stringify v @ CHR '']'' # rest) = Some (v, CHR '']'' # rest)"
      by (intro rtD) (simp_all add: nd_simps)
    with Nil n show ?thesis
      by (simp add: skip_ws_Cons is_ws_def)
  next
    case (Cons w ws)
    let ?tail = "join_comma (map JSON_stringify vs) @ CHR '']'' # rest"
    from Cons Cons.prems n
    have "parse_value m (JSON_stringify v @ CHR '','' # ?tail) = Some (v, CHR '','' # ?tail)"
      by (intro rtD) (simp_all add: nd_simps)
    moreover from Cons Cons.prems n have "parse_elements m ?tail = Some (vs, rest)"
      by (intro Cons.IH) simp_all
    ultimately show ?thesis using Cons n
      by (simp add: skip_ws_Cons is_ws_def)
  qed
qed

definition member_text :: "string \<times> json \<Rightarrow> string" where
  "member_text p = JSON_quote (fst p) @ CHR '':'' # JSON_stringify (snd p)"

lemma member_text_unfold:
  "member_text p @ rest = DQ # (tl (JSON_quote (fst p)) @ CHR '':'' # JSON_stringify (snd p) @ rest)"
  by (simp add: member_text_def JSON_quote_def)

lemma length_member_text: "length (JSON_stringify (snd p)) + 3 \<le> length (member_text p)"
  by (simp add: member_text_def JSON_quote_def)

lemma parse_members_join:
  assumes "\<And>p. p \<in> set ps \<Longrightarrow> rt (snd p)" and "ps \<noteq> []"
    and "length (join_comma (map member_text ps)) < n"
  shows "parse_members n (join_comma (map member_text ps) @ CHR ''}'' # rest) = Some (ps, rest)"
  using assms
proof (induction ps arbitrary: n)
  case Nil
  then show ?case by simp
next
  case (Cons p ps)
  from Cons.prems(3) obtain m where n: "n = Suc m" by (cases n) auto
  obtain k v where p: "p = (k, v)" by (cases p)
  have ws: "\<not> is_ws DQ" "\<not> is_ws (CHR '':'')" "\<not> is_ws (CHR '','')" "\<not> is_ws (CHR ''}'')"
    by (simp_all add: is_ws_def)
  show ?case
  proof (cases ps)
    case Nil
    have len: "length (JSON_stringify v) \<le> m"
      using Cons.prems(3) n Nil p length_member_text [of p] by simp
    have "parse_value m (JSON_stringify v @ CHR ''}'' # rest) = Some (v, CHR ''}'' # rest)"
      using Cons.prems(1) [of p] p len by (intro rtD) (simp_all add: nd_simps)
    with Nil n p show ?thesis
      by (simp add: member_text_unfold skip_ws_Cons ws parse_chars_JSON_quote)
  next
    case (Cons q qs)
    let ?tail = "join_comma (map member_text ps) @ CHR ''}'' # rest"
    have len: "length (JSON_stringify v) \<le> m"
      using Cons.prems(3) n Cons p length_member_text [of p] by simp
    have "parse_value m (JSON_stringify v @ CHR '','' # ?tail) = Some (v, CHR '','' # ?tail)"
      using Cons.prems(1) [of p] p len by (intro rtD) (simp_all add: nd_simps)
    moreover have "parse_members m ?tail = Some (ps, rest)"
      using Cons Cons.prems n by (intro Cons.IH) simp_all
    ultimately show ?thesis using Cons n p
      by (simp add: member_text_unfold skip_ws_Cons ws parse_chars_JSON_quote)
  qed
qed

lemma set_property_fresh: "k \<notin> fst ` set ps \<Longrightarrow> set_property k v ps = ps @ [(k, v)]"
  by (induction ps) auto

lemma foldl_set_property:
  "distinct (map fst (acc @ ms)) \<Longrightarrow>
     foldl (\<lambda>ps m. set_property (fst m) (snd m) ps) acc ms = acc @ ms"
proof (induction ms arbitrary: acc)
  case Nil
  then show ?case by simp
next
  case (Cons m ms)
  then have "set_property (fst m) (snd m) acc = acc @ [m]"
    by (intro set_property_fresh [THEN trans]) auto
  with Cons.IH [of "acc @ [m]"] Cons.prems show ?case by simp
qed

lemma object_of_distinct: "distinct (map fst ps) \<Longrightarrow> object_of ps = JObj ps"
  using foldl_set_property [of "[]" ps] by (simp add: object_of_def)

lemma stringify_obj_members:
  "JSON_stringify (JObj ps) = CHR ''{'' # join_comma (map member_text ps) @ ''}''"
  by (simp add: member_text_def [abs_def])

lemma distinct_keys_rt: "distinct_keys v \<Longrightarrow> rt v"
proof (induction v)
  case JNull
  show ?case
    unfolding rt_def
  proof (intro allI impI)
    fix n rest assume "length (JSON_stringify JNull) \<le> n"
    then obtain m where "n = Suc m" by (cases n) auto
    then show "parse_value n (JSON_stringify JNull @ rest) = Some (JNull, rest)"
      by (simp add: skip_ws_Cons is_ws_def parse_literal_def)
  qed
next
  case (JBool b)
  show ?case
    unfolding rt_def
  proof (intro allI impI)
    fix n rest assume "length (JSON_stringify (JBool b)) \<le> n"
    then obtain m where "n = Suc m" by (cases n) (auto split: if_splits)
    then show "parse_value n (JSON_stringify (JBool b) @ rest) = Some (JBool b, rest)"
      by (simp add: skip_ws_Cons is_ws_def parse_literal_def)
  qed
next
  case (JNum i)
  show ?case
    unfolding rt_def
  proof (intro allI impI)
    fix n rest assume len: "length (JSON_stringify (JNum i)) \<le> n" and nd: "nd rest"
    obtain c cs where c: "show_int i = c # cs" "c = CHR ''-'' \<or> is_digit c"
      using show_int_start by blast
    from len c obtain m where n: "n = Suc m" by (cases n) auto
    from c(2) have nws: "\<not> is_ws c" and other: "c \<notin> set ''ntf[{''" "c \<noteq> DQ"
      by (auto simp: is_ws_def is_digit_def)
    have "parse_number (c # cs @ rest) = Some (JNum i, rest)"
      using parse_number_show_int [OF nd, of i] c by simp
    with n c nws other show "parse_value n (JSON_stringify (JNum i) @ rest) = Some (JNum i, rest)"
      by (simp add: skip_ws_Cons)
  qed
next
  case (JStr s)
  show ?case
    unfolding rt_def
  proof (intro allI impI)
    fix n rest assume "length (JSON_stringify (JStr s)) \<le> n"
    then obtain m where "n = Suc m" by (cases n) (auto simp: JSON_quote_def)
    then show "parse_value n (JSON_stringify (JStr s) @ rest) = Some (JStr s, rest)"
      using parse_chars_quote [of s rest]
      by (simp add: skip_ws_Cons is_ws_def JSON_quote_def)
  qed
next
  case (JArr vs)
  then have elems: "\<And>v. v \<in> set vs \<Longrightarrow> rt v"
    by (simp add: list_all_iff)
  show ?case
    unfolding rt_def
  proof (intro allI impI)
    fix n rest assume len: "length (JSON_stringify (JArr vs)) \<le> n"
    then obtain m where n: "n = Suc m" by (cases n) auto
    show "parse_value n (JSON_stringify (JArr vs) @ rest) = Some (JArr vs, rest)"
    proof (cases vs)
      case Nil
      with n show ?thesis by (simp add: skip_ws_Cons is_ws_def)
    next
      case (Cons w ws)
      let ?body = "join_comma (map JSON_stringify vs)"
      obtain c cs where c: "JSON_stringify w = c # cs" "value_start c"
        using JSON_stringify_start by blast
      then obtain cs' where body: "?body = c # cs'"
        using Cons by (cases ws) auto
      have "parse_elements m (?body @ CHR '']'' # rest) = Some (vs, rest)"
        using elems Cons len n by (intro parse_elements_join) simp_all
      with n body c(2) show ?thesis
        using value_start_not_ws [of c] value_start_not_close [of c]
        by (simp add: skip_ws_Cons is_ws_def)
    qed
  qed
next
  case (JObj ps)
  then have membs: "\<And>p. p \<in> set ps \<Longrightarrow> rt (snd p)" and dist: "distinct (map fst ps)"
    by (auto simp: list_all_iff snds.simps)
  show ?case
    unfolding rt_def
  proof (intro allI impI)
    fix n rest assume len: "length (JSON_stringify (JObj ps)) \<le> n"
    then obtain m where n: "n = Suc m" by (cases n) auto
    show "parse_value n (JSON_stringify (JObj ps) @ rest) = Some (JObj ps, rest)"
    proof (cases ps)
      case Nil
      with n show ?thesis by (simp add: skip_ws_Cons is_ws_def)
    next
      case (Cons q qs)
      let ?body = "join_comma (map member_text ps)"
      obtain cs' where body: "?body = DQ # cs'"
        using Cons by (cases qs) (auto simp: member_text_def JSON_quote_def)
      have "parse_members m (?body @ CHR ''}'' # rest) = Some (ps, rest)"
        using membs Cons len n
        by (intro parse_members_join) (simp_all add: stringify_obj_members del: JSON_stringify.simps)
      with n body dist show ?thesis
        by (simp add: stringify_obj_members skip_ws_Cons is_ws_def object_of_distinct
            del: JSON_stringify.simps)
    qed
  qed
qed

theorem JSON_parse_stringify: "distinct_keys v \<Longrightarrow> JSON_parse (JSON_stringify v) = Some v"
  using rtD [OF distinct_keys_rt, of v "Suc (length (JSON_stringify v))" "[]"]
  by (simp add: JSON_parse_def nd_simps skip_ws_def)

section \<open>Facts about the store and the envelope\<close>

lemma map_of_filter_fst:
  "map_of (filter (\<lambda>p. fst p \<noteq> k) xs) k' = (if k' = k then None else map_of xs k')"
  by (induction xs) auto

lemma map_of_put_item: "map_of (put_item k v xs) k' = (if k' = k then Some v else map_of xs k')"
  by (induction xs) auto

lemma setItem_InrD:
  "setItem s k v = Inr s' \<Longrightarrow> available s \<and> s' = s\<lparr>items := put_item k v (items s)\<rparr>"
  by (auto simp: setItem_def Let_def split: if_splits option.splits)

lemma parseStoredData_envelope:
  assumes "distinct_keys v" and "distinct_keys e" and "distinct_keys c"
  shows "parseStoredData (JSON_stringify (json_of_item
           \<lparr>item_value = v, item_expiresAt = Some e, item_createdAt = c\<rparr>))
         = Some \<lparr>item_value = v, item_expiresAt = Some e, item_createdAt = c\<rparr>"
proof -
  let ?obj = "JObj [(''value'', v), (''expiresAt'', e), (''createdAt'', c)]"
  have "distinct_keys ?obj" using assms by simp
  then have "JSON_parse (JSON_stringify ?obj) = Some ?obj"
    by (rule JSON_parse_stringify)
  then show ?thesis
    by (simp add: parseStoredData_def json_of_item_def del: JSON_stringify.simps)
qed

text \<open>What a successful \<open>set\<close> leaves in the store.\<close>

lemma set_sp_TrueD:
  assumes "set_sp this now s key v options = (True, s1, w)"
  shows "available s1
    \<and> getItem s1 (getKey this key) = Inr (Some (JSON_stringify (json_of_item
         \<lparr>item_value = v,
          item_expiresAt = Some (case (case ttl options of None \<Rightarrow> defaultTTL this | Some x \<Rightarrow> Some x) of
                                  None \<Rightarrow> JNull
                                | Some x \<Rightarrow> if x = 0 then JNull else JNum (now + x)),
          item_createdAt = JNum now\<rparr>)))"
  using assms
  by (auto simp: set_sp_def Let_def getItem_def map_of_put_item
           split: sum.splits dest!: setItem_InrD)

lemma isExpired_envelope:
  "isExpired now' \<lparr>item_value = v, item_expiresAt = Some (case e of None \<Rightarrow> JNull | Some x \<Rightarrow> JNum x),
                    item_createdAt = c\<rparr> \<longleftrightarrow> (\<exists>x. e = Some x \<and> x < now')"
  by (cases e) (simp_all add: isExpired_def)

lemma get_live:
  assumes "getItem s (getKey this key) = Inr (Some data)"
    and "parseStoredData data = Some item" and "\<not> isExpired now item"
  shows "get this now s key = (item_value item, s, [])"
  using assms by (simp add: get_def Let_def)

lemma get_expired:
  assumes "getItem s (getKey this key) = Inr (Some data)"
    and "parseStoredData data = Some item" and "isExpired now item"
  shows "get this now s key = (JNull, s\<lparr>items := filter (\<lambda>p. fst p \<noteq> getKey this key) (items s)\<rparr>, [])"
proof -
  from assms(1) have "available s" by (simp add: getItem_def split: if_splits)
  with assms show ?thesis by (simp add: get_def Let_def removeItem_def)
qed

lemma getItem_after_filter:
  "available s \<Longrightarrow> getItem (s\<lparr>items := filter (\<lambda>p. fst p \<noteq> k) (items s)\<rparr>) k = Inr None"
  by (simp add: getItem_def map_of_filter_fst)

lemma get_available:
  assumes "available s"
  shows "get this now s key =
     (case map_of (items s) (getKey this key) of
        None \<Rightarrow> (JNull, s, [])
      | Some d \<Rightarrow>
          if readable now d then (item_value (the (parseStoredData d)), s, [])
          else (JNull, s\<lparr>items := filter (\<lambda>p. fst p \<noteq> getKey this key) (items s)\<rparr>, []))"
  using assms
  by (simp add: get_def Let_def getItem_def removeItem_def readable_def split: option.splits)

lemma get_unavailable:
  "\<not> available s \<Longrightarrow> get this now s key = (JNull, s, warn this ''StoragePlus: Failed to get item'')"
  by (simp add: get_def Let_def getItem_def)





lemma stored_item_not_corrupt:
  assumes "distinct_keys v" and "distinct_keys e" and "distinct_keys c"
  shows "\<not> corrupt (JSON_stringify (json_of_item
           \<lparr>item_value = v, item_expiresAt = Some e, item_createdAt = c\<rparr>))"
proof -
  let ?obj = "JObj [(''value'', v), (''expiresAt'', e), (''createdAt'', c)]"
  have "distinct_keys ?obj" using assms by simp
  then have "JSON_parse (JSON_stringify ?obj) = Some ?obj"
    by (rule JSON_parse_stringify)
  then show ?thesis
    by (simp add: corrupt_def well_formed_envelope_def json_of_item_def del: JSON_stringify.simps)
qed

lemma getInfo_available:
  assumes "available s"
  shows "getInfo this now s key =
     (case map_of (items s) (getKey this key) of
        None \<Rightarrow> (NotExists, s, [])
      | Some d \<Rightarrow>
          (case parseStoredData d of
             None \<Rightarrow> (NotExists, s, [])
           | Some item \<Rightarrow>
               if isExpired now item
               then (NotExists, s\<lparr>items := filter (\<lambda>p. fst p \<noteq> getKey this key) (items s)\<rparr>, [])
               else (Exists (item_createdAt item) (item_expiresAt item) (length d), s, [])))"
  using assms
  by (simp add: getInfo_def Let_def getItem_def removeItem_def split: option.splits)

lemma getInfo_unavailable:
  "\<not> available s \<Longrightarrow>
     getInfo this now s key = (NotExists, s, warn this ''StoragePlus: Failed to get item info'')"
  by (simp add: getInfo_def Let_def getItem_def)

lemma startsWith_append_drop: "startsWith k p \<Longrightarrow> p @ drop (length p) k = k"
  unfolding startsWith_def by (metis append_take_drop_id)

text \<open>What \<open>has\<close> does to an available store, as the pass of \<open>keys\<close> needs it.\<close>

lemma has_available:
  assumes "available s" and "has this now s key = (b, s1, w1)"
  shows "w1 = [] \<and> available s1 \<and> quota s1 = quota s
    \<and> (\<forall>k d. map_of (items s1) k = Some d \<longrightarrow> map_of (items s) k = Some d)
    \<and> (\<forall>k d. map_of (items s) k = Some d \<longrightarrow> readable now d \<longrightarrow> map_of (items s1) k = Some d)
    \<and> (b \<longrightarrow> (\<exists>d item. map_of (items s) (getKey this key) = Some d \<and> parseStoredData d = Some item
                 \<and> \<not> isExpired now item \<and> item_value item \<noteq> JNull))"
  using assms
  by (auto simp: has_def get_available map_of_filter_fst readable_def
           split: option.splits if_splits)

section \<open>The passes over the store\<close>

text \<open>On a store that is not available every pass faults at its first read of
  \<^verbatim>\<open>storage.length\<close>; on an available store the two-pass operations have a closed form.\<close>

lemma drop_keys_step:
  "i < length xs \<Longrightarrow> drop i (map fst xs) = fst (xs ! i) # drop (Suc i) (map fst xs)"
  using Cons_nth_drop_Suc [of i "map fst xs"] by simp

lemma clear_collect_unavailable:
  "\<not> available s \<Longrightarrow> clear_collect this s i ks = Inl SecurityError"
  by (subst clear_collect.simps) (simp add: storage_length_def)

lemma clear_collect_available:
  "available s \<Longrightarrow>
     clear_collect this s i ks = Inr (ks @ filter (in_namespace this) (drop i (map fst (items s))))"
proof (induction this s i ks rule: clear_collect.induct)
  case (1 this s i keysToRemove)
  show ?case
  proof (cases "i < length (items s)")
    case True
    with 1 show ?thesis
      by (subst clear_collect.simps)
         (simp add: storage_length_def storage_key_def drop_keys_step in_namespace_def [abs_def])
  next
    case False
    with 1 show ?thesis
      by (subst clear_collect.simps) (simp add: storage_length_def)
  qed
qed

lemma remove_each_available:
  "available s \<Longrightarrow> remove_each s ks = (None, s\<lparr>items := filter (\<lambda>p. fst p \<notin> set ks) (items s)\<rparr>)"
proof (induction ks arbitrary: s)
  case Nil
  then show ?case by simp
next
  case (Cons k ks)
  have "filter (\<lambda>p. fst p \<notin> set ks) (filter (\<lambda>p. fst p \<noteq> k) (items s))
      = filter (\<lambda>p. fst p \<notin> set (k # ks)) (items s)"
    by (auto intro: filter_cong)
  with Cons show ?case
    by (simp add: removeItem_def)
qed

lemma remove_each_unavailable:
  "\<not> available s \<Longrightarrow> ks \<noteq> [] \<Longrightarrow> remove_each s ks = (Some SecurityError, s)"
  by (cases ks) (simp_all add: removeItem_def)

lemma clear_available:
  assumes "available s"
  shows "clear this s = (True, s\<lparr>items := filter (\<lambda>p. \<not> in_namespace this (fst p)) (items s)\<rparr>, [])"
proof -
  have "filter (\<lambda>p. fst p \<notin> set (filter (in_namespace this) (map fst (items s)))) (items s)
      = filter (\<lambda>p. \<not> in_namespace this (fst p)) (items s)"
    by (auto intro: filter_cong)
  with assms show ?thesis
    by (simp add: clear_def clear_collect_available remove_each_available)
qed

lemma clear_unavailable:
  "\<not> available s \<Longrightarrow> clear this s = (False, s, warn this ''StoragePlus: Failed to clear storage'')"
  by (simp add: clear_def clear_collect_unavailable)

lemma size_loop_unavailable:
  "\<not> available s \<Longrightarrow> size_loop this s i t = (Some SecurityError, t)"
  by (subst size_loop.simps) (simp add: storage_length_def)

lemma size_loop_available:
  "available s \<Longrightarrow>
     size_loop this s i t =
       (None, t + sum_list (map (entry_size s) (filter (in_namespace this) (drop i (map fst (items s))))))"
proof (induction "length (items s) - i" arbitrary: i t rule: less_induct)
  case less
  show ?case
  proof (cases "i < length (items s)")
    case False
    with less.prems show ?thesis
      by (subst size_loop.simps) (simp add: storage_length_def)
  next
    case True
    then have "length (items s) - Suc i < length (items s) - i" by simp
    note IH = less.hyps [OF this less.prems]
    from True less.prems show ?thesis
      by (subst size_loop.simps)
         (simp add: IH storage_length_def storage_key_def getItem_def drop_keys_step
                    in_namespace_def entry_size_def split: option.splits)
  qed
qed

lemma size_sp_available:
  "available s \<Longrightarrow>
     size_sp this s =
       (sum_list (map (entry_size s) (filter (in_namespace this) (map fst (items s)))), s, [])"
  by (simp add: size_sp_def size_loop_available)

lemma size_sp_unavailable:
  "\<not> available s \<Longrightarrow> size_sp this s = (0, s, warn this ''StoragePlus: Failed to calculate size'')"
  by (simp add: size_sp_def size_loop_unavailable)

lemma cleanup_collect_unavailable:
  "\<not> available s \<Longrightarrow> cleanup_collect this now s i ks = Inl SecurityError"
  by (subst cleanup_collect.simps) (simp add: storage_length_def)

lemma cleanup_collect_available:
  "available s \<Longrightarrow>
     cleanup_collect this now s i ks =
       Inr (ks @ filter (\<lambda>k. in_namespace this k \<and> stale now s k) (drop i (map fst (items s))))"
proof (induction "length (items s) - i" arbitrary: i ks rule: less_induct)
  case less
  show ?case
  proof (cases "i < length (items s)")
    case False
    with less.prems show ?thesis
      by (subst cleanup_collect.simps) (simp add: storage_length_def)
  next
    case True
    then have "length (items s) - Suc i < length (items s) - i" by simp
    note IH = less.hyps [OF this less.prems]
    from True less.prems show ?thesis
      by (subst cleanup_collect.simps)
         (simp add: IH storage_length_def storage_key_def getItem_def drop_keys_step
                    in_namespace_def stale_def split: option.splits)
  qed
qed

lemma cleanup_remove_available:
  "available s \<Longrightarrow>
     cleanup_remove s n ks = (None, s\<lparr>items := filter (\<lambda>p. fst p \<notin> set ks) (items s)\<rparr>, n + length ks)"
proof (induction ks arbitrary: s n)
  case Nil
  then show ?case by simp
next
  case (Cons k ks)
  have "filter (\<lambda>p. fst p \<notin> set ks) (filter (\<lambda>p. fst p \<noteq> k) (items s))
      = filter (\<lambda>p. fst p \<notin> set (k # ks)) (items s)"
    by (auto intro: filter_cong)
  with Cons show ?case
    by (simp add: removeItem_def)
qed

lemma cleanup_available:
  assumes "available s"
  shows "cleanup this now s =
     (length (filter (\<lambda>k. in_namespace this k \<and> stale now s k) (map fst (items s))),
      s\<lparr>items := filter (\<lambda>p. \<not> (in_namespace this (fst p) \<and> stale now s (fst p))) (items s)\<rparr>, [])"
proof -
  have "filter (\<lambda>p. fst p \<notin> set (filter (\<lambda>k. in_namespace this k \<and> stale now s k) (map fst (items s)))) (items s)
      = filter (\<lambda>p. \<not> (in_namespace this (fst p) \<and> stale now s (fst p))) (items s)"
    by (auto intro: filter_cong)
  with assms show ?thesis
    by (simp add: cleanup_def cleanup_collect_available cleanup_remove_available)
qed

lemma cleanup_unavailable:
  "\<not> available s \<Longrightarrow>
     cleanup this now s = (0, s, warn this ''StoragePlus: Failed to cleanup expired items'')"
  by (simp add: cleanup_def cleanup_collect_unavailable)

lemma map_of_filter_keys:
  "map_of (filter (\<lambda>p. \<not> P (fst p)) xs) k = (if P k then None else map_of xs k)"
  by (induction xs) auto

lemma cleanup_keeps_readable:
  assumes "available s" and "map_of (items s) k = Some d" and "readable now d"
  shows "map_of (items (fst (snd (cleanup this now s)))) k = Some d"
proof -
  from assms(2,3) have "\<not> stale now s k"
    by (auto simp: stale_def readable_def split: option.splits)
  with assms map_of_filter_keys [of "\<lambda>k. in_namespace this k \<and> stale now s k" "items s" k]
  show ?thesis
    by (simp add: cleanup_available)
qed

text \<open>The pass of \<open>keys\<close> changes the store as it goes, so it has an invariant instead: it
  emits no warning, it only takes entries out, it never takes a readable entry out, and
  every key it lists is the key of a readable entry with a payload other than \<^verbatim>\<open>null\<close>.\<close>

lemma keys_loop_done:
  "available s \<Longrightarrow> \<not> i < length (items s) \<Longrightarrow> keys_loop this now s i ks w = (None, ks, s, w)"
  by (subst keys_loop.simps) (simp add: storage_length_def)

lemma keys_loop_step:
  "available s \<Longrightarrow> i < length (items s) \<Longrightarrow>
   keys_loop this now s i ks w =
     (if in_namespace this (fst (items s ! i)) then
        (case has this now s (drop (length (namespace this)) (fst (items s ! i))) of
           (b, s1, w1) \<Rightarrow>
             keys_loop this now s1 (i + 1)
               (if b then ks @ [drop (length (namespace this)) (fst (items s ! i))] else ks) (w @ w1))
      else keys_loop this now s (i + 1) ks w)"
  by (subst keys_loop.simps) (simp add: storage_length_def storage_key_def in_namespace_def)

lemma keys_loop_unavailable:
  "\<not> available s \<Longrightarrow> keys_loop this now s i ks w = (Some SecurityError, ks, s, w)"
  by (subst keys_loop.simps) (simp add: storage_length_def)

lemma keys_loop_available:
  assumes "available s" and "keys_loop this now s i ks w = (e, ks', s', w')"
  shows "e = None \<and> w' = w \<and> available s' \<and> quota s' = quota s
    \<and> (\<forall>k d. map_of (items s') k = Some d \<longrightarrow> map_of (items s) k = Some d)
    \<and> (\<forall>k d. map_of (items s) k = Some d \<longrightarrow> readable now d \<longrightarrow> map_of (items s') k = Some d)
    \<and> (\<forall>k \<in> set ks'. k \<in> set ks \<or>
          (\<exists>d item. map_of (items s) (namespace this @ k) = Some d \<and> parseStoredData d = Some item
             \<and> \<not> isExpired now item \<and> item_value item \<noteq> JNull))"
  using assms
proof (induction "length (items s) - i" arbitrary: s i ks w rule: less_induct)
  case less
  show ?case
  proof (cases "i < length (items s)")
    case False
    with less.prems show ?thesis by (simp add: keys_loop_done)
  next
    case True
    let ?fk = "fst (items s ! i)"
    let ?key = "drop (length (namespace this)) ?fk"
    show ?thesis
    proof (cases "in_namespace this ?fk")
      case False
      with less.prems True
      have run: "keys_loop this now s (i + 1) ks w = (e, ks', s', w')"
        by (simp add: keys_loop_step)
      from True have "length (items s) - (i + 1) < length (items s) - i" by simp
      from less.hyps [OF this less.prems(1) run] show ?thesis .
    next
      case inns: True
      then have ns: "startsWith ?fk (namespace this)"
        by (simp add: in_namespace_def)
      obtain b s1 w1 where h: "has this now s ?key = (b, s1, w1)"
        by (cases "has this now s ?key") auto
      note H = has_available [OF less.prems(1) h]
      let ?ks1 = "if b then ks @ [?key] else ks"
      have w1: "w1 = []" and av1: "available s1" and q1: "quota s1 = quota s"
        using H by blast+
      have sub1: "map_of (items s) k = Some d" if "map_of (items s1) k = Some d" for k d
        using H that by blast
      have keep1: "map_of (items s1) k = Some d" if "map_of (items s) k = Some d" "readable now d" for k d
        using H that by blast
      have live1: "\<exists>d item. map_of (items s) (getKey this ?key) = Some d \<and> parseStoredData d = Some item
                 \<and> \<not> isExpired now item \<and> item_value item \<noteq> JNull" if b
        using H that by blast
      from inns less.prems True h w1
      have run: "keys_loop this now s1 (i + 1) ?ks1 w = (e, ks', s', w')"
        by (simp add: keys_loop_step)
      have "length (items s1) \<le> length (items s)"
        using h by (rule has_length_items)
      with True have "length (items s1) - (i + 1) < length (items s) - i" by simp
      note IH = less.hyps [OF this av1 run]
      have fk: "getKey this ?key = ?fk"
        using ns by (simp add: getKey_def startsWith_append_drop)
      have listed: "k \<in> set ks \<or>
          (\<exists>d item. map_of (items s) (namespace this @ k) = Some d \<and> parseStoredData d = Some item
             \<and> \<not> isExpired now item \<and> item_value item \<noteq> JNull)" if "k \<in> set ks'" for k
      proof -
        from IH that have "k \<in> set ?ks1 \<or>
          (\<exists>d item. map_of (items s1) (namespace this @ k) = Some d \<and> parseStoredData d = Some item
             \<and> \<not> isExpired now item \<and> item_value item \<noteq> JNull)"
          by blast
        then show ?thesis
        proof
          assume "k \<in> set ?ks1"
          then consider "k \<in> set ks" | "b" "k = ?key"
            by (auto split: if_splits)
          then show ?thesis
          proof cases
            case 1
            then show ?thesis by simp
          next
            case 2
            from live1 [OF 2(1)] fk 2(2) show ?thesis
              by (simp add: getKey_def)
          qed
        next
          assume "\<exists>d item. map_of (items s1) (namespace this @ k) = Some d \<and> parseStoredData d = Some item
             \<and> \<not> isExpired now item \<and> item_value item \<noteq> JNull"
          with sub1 show ?thesis by blast
        qed
      qed
      from IH have e: "e = None" and w: "w' = w" and av: "available s'" and q: "quota s' = quota s1"
        by blast+
      from IH sub1 have sub: "\<forall>k d. map_of (items s') k = Some d \<longrightarrow> map_of (items s) k = Some d"
        by blast
      from IH keep1 have keep:
        "\<forall>k d. map_of (items s) k = Some d \<longrightarrow> readable now d \<longrightarrow> map_of (items s') k = Some d"
        by blast
      from q q1 have q': "quota s' = quota s" by simp
      from listed have listed': "\<forall>k \<in> set ks'. k \<in> set ks \<or>
          (\<exists>d item. map_of (items s) (namespace this @ k) = Some d \<and> parseStoredData d = Some item
             \<and> \<not> isExpired now item \<and> item_value item \<noteq> JNull)"
        by (rule ballI)
      show ?thesis
        by (intro conjI) (rule e w av q' sub keep listed')+
    qed
  qed
qed

lemma keys_available:
  assumes "available s"
  obtains ks s' where "keys this now s = (ks, s', [])" and "keys_loop this now s 0 [] [] = (None, ks, s', [])"
proof -
  obtain e ks s' w where run: "keys_loop this now s 0 [] [] = (e, ks, s', w)"
    by (cases "keys_loop this now s 0 [] []") auto
  from keys_loop_available [OF assms run] have "e = None" "w = []" by blast+
  with run that show thesis by (simp add: keys_def)
qed

lemma keys_keeps_readable:
  assumes "available s" and "map_of (items s) k = Some d" and "readable now d"
  shows "getItem (fst (snd (keys this now s))) k = Inr (Some d)"
proof -
  obtain ks s' where k: "keys this now s = (ks, s', [])"
    and run: "keys_loop this now s 0 [] [] = (None, ks, s', [])"
    using assms(1) by (rule keys_available)
  from keys_loop_available [OF assms(1) run] assms(2,3)
  have "available s'" "map_of (items s') k = Some d" by blast+
  with k show ?thesis by (simp add: getItem_def)
qed


lemma keys_unavailable:
  "\<not> available s \<Longrightarrow> keys this now s = ([], s, warn this ''StoragePlus: Failed to get keys'')"
  by (simp add: keys_def keys_loop_unavailable)

subsection \<open>An instance with a namespace\<close>

text \<open>When the instance has a namespace, no full key under its prefix is empty, and the
  passes of \<open>clear\<close>, \<open>cleanup\<close> and \<open>size\<close> are what their names say, entry by entry (the
  keys of a store are distinct).\<close>

lemma in_namespace_nonempty:
  "namespace this \<noteq> [] \<Longrightarrow> in_namespace this k \<longleftrightarrow> startsWith k (namespace this)"
  by (auto simp: in_namespace_def startsWith_def)

lemma parseStoredData_Nil: "parseStoredData [] = None"
  by code_simp

lemma map_of_entry:
  "distinct (map fst xs) \<Longrightarrow> p \<in> set xs \<Longrightarrow> map_of xs (fst p) = Some (snd p)"
  by (cases p) simp

lemma clear_with_namespace:
  assumes "available s" and "namespace this \<noteq> []"
  shows "clear this s =
     (True, s\<lparr>items := filter (\<lambda>p. \<not> startsWith (fst p) (namespace this)) (items s)\<rparr>, [])"
  using assms by (simp add: clear_available in_namespace_nonempty)

lemma stale_entry:
  assumes "distinct (map fst (items s))" and "namespace this \<noteq> []" and "p \<in> set (items s)"
  shows "in_namespace this (fst p) \<and> stale now s (fst p) \<longleftrightarrow> expired_entry this now p"
proof -
  have m: "map_of (items s) (fst p) = Some (snd p)"
    by (rule map_of_entry [OF assms(1,3)])
  show ?thesis
    unfolding stale_def m
    by (cases "snd p = []")
       (auto simp: in_namespace_nonempty [OF assms(2)] expired_entry_def parseStoredData_Nil
             split: option.splits)
qed

lemma cleanup_with_namespace:
  assumes "available s" and "distinct (map fst (items s))" and "namespace this \<noteq> []"
  shows "cleanup this now s =
     (length (filter (expired_entry this now) (items s)),
      s\<lparr>items := filter (\<lambda>p. \<not> expired_entry this now p) (items s)\<rparr>, [])"
proof -
  let ?P = "\<lambda>k. in_namespace this k \<and> stale now s k"
  have same: "filter (\<lambda>p. ?P (fst p)) (items s) = filter (expired_entry this now) (items s)"
    using stale_entry [OF assms(2,3)] by (intro filter_cong refl) blast
  have keep: "filter (\<lambda>p. \<not> ?P (fst p)) (items s) = filter (\<lambda>p. \<not> expired_entry this now p) (items s)"
    using stale_entry [OF assms(2,3)] by (intro filter_cong refl) blast
  have "length (filter ?P (map fst (items s))) = length (filter (\<lambda>p. ?P (fst p)) (items s))"
    by (simp add: filter_map comp_def)
  with same keep cleanup_available [OF assms(1), of this now] show ?thesis
    by simp
qed

lemma size_sp_with_namespace:
  assumes "available s" and "distinct (map fst (items s))" and "namespace this \<noteq> []"
  shows "size_sp this s =
     (sum_list (map (\<lambda>p. if snd p \<noteq> [] then length (fst p) + length (snd p) else 0)
        (filter (\<lambda>p. startsWith (fst p) (namespace this)) (items s))), s, [])"
proof -
  have "map (entry_size s) (filter (in_namespace this) (map fst (items s)))
      = map (\<lambda>p. entry_size s (fst p)) (filter (\<lambda>p. in_namespace this (fst p)) (items s))"
    by (simp add: filter_map comp_def)
  also have "\<dots> = map (\<lambda>p. if snd p \<noteq> [] then length (fst p) + length (snd p) else 0)
        (filter (\<lambda>p. startsWith (fst p) (namespace this)) (items s))"
    using map_of_entry [OF assms(2)] assms(3)
    by (intro map_cong) (auto simp: in_namespace_nonempty entry_size_def)
  finally show ?thesis
    using assms(1) by (simp add: size_sp_available)
qed

subsection \<open>The flag enableWarnings\<close>

lemma getKey_flag: "getKey (this\<lparr>enableWarnings := b\<rparr>) key = getKey this key"
  by (simp add: getKey_def)

lemma in_namespace_flag: "in_namespace (this\<lparr>enableWarnings := b\<rparr>) = in_namespace this"
  by (simp add: in_namespace_def fun_eq_iff)

lemma set_sp_flag:
  "outcome (set_sp (this\<lparr>enableWarnings := b\<rparr>) now s key v options) = outcome (set_sp this now s key v options)"
proof -
  have t: "(case ttl options of None \<Rightarrow> defaultTTL (this\<lparr>enableWarnings := b\<rparr>) | Some x \<Rightarrow> Some x)
      = (case ttl options of None \<Rightarrow> defaultTTL this | Some x \<Rightarrow> Some x)"
    by (simp split: option.splits)
  show ?thesis
    unfolding outcome_def set_sp_def Let_def t getKey_flag
    by (simp split: sum.splits)
qed

lemma get_flag:
  "outcome (get (this\<lparr>enableWarnings := b\<rparr>) now s key) = outcome (get this now s key)"
  by (simp add: outcome_def get_def Let_def getKey_flag split: sum.splits option.splits)

lemma has_flag:
  "outcome (has (this\<lparr>enableWarnings := b\<rparr>) now s key) = outcome (has this now s key)"
  using get_flag [of b this now s key]
  by (auto simp: outcome_def has_def split: prod.splits)

lemma has_flag_available:
  "available s \<Longrightarrow> has (this\<lparr>enableWarnings := b\<rparr>) now s key = has this now s key"
  by (simp add: has_def get_def Let_def getKey_flag getItem_def removeItem_def
           split: option.splits)

lemma remove_sp_flag:
  "outcome (remove_sp (this\<lparr>enableWarnings := b\<rparr>) s key) = outcome (remove_sp this s key)"
  by (simp add: outcome_def remove_sp_def getKey_def split: sum.splits)

lemma clear_flag:
  "outcome (clear (this\<lparr>enableWarnings := b\<rparr>) s) = outcome (clear this s)"
  by (cases "available s")
     (simp_all add: outcome_def clear_available clear_unavailable in_namespace_flag)

lemma size_sp_flag:
  "outcome (size_sp (this\<lparr>enableWarnings := b\<rparr>) s) = outcome (size_sp this s)"
  by (cases "available s")
     (simp_all add: outcome_def size_sp_available size_sp_unavailable in_namespace_flag)

lemma cleanup_flag:
  "outcome (cleanup (this\<lparr>enableWarnings := b\<rparr>) now s) = outcome (cleanup this now s)"
  by (cases "available s")
     (simp_all add: outcome_def cleanup_available cleanup_unavailable in_namespace_flag)

lemma getInfo_flag:
  "outcome (getInfo (this\<lparr>enableWarnings := b\<rparr>) now s key) = outcome (getInfo this now s key)"
  by (simp add: outcome_def getInfo_def Let_def getKey_flag split: sum.splits option.splits)

lemma keys_loop_flag:
  "available s \<Longrightarrow>
     keys_loop (this\<lparr>enableWarnings := b\<rparr>) now s i ks w = keys_loop this now s i ks w"
proof (induction "length (items s) - i" arbitrary: s i ks w rule: less_induct)
  case less
  let ?this' = "this\<lparr>enableWarnings := b\<rparr>"
  show ?case
  proof (cases "i < length (items s)")
    case False
    with less.prems show ?thesis by (simp add: keys_loop_done)
  next
    case True
    let ?fk = "fst (items s ! i)"
    let ?key = "drop (length (namespace this)) ?fk"
    show ?thesis
    proof (cases "in_namespace this ?fk")
      case False
      from True have "length (items s) - (i + 1) < length (items s) - i" by simp
      from less.hyps [OF this less.prems] False True less.prems show ?thesis
        by (simp add: keys_loop_step in_namespace_flag)
    next
      case inns: True
      obtain c s1 w1 where h: "has this now s ?key = (c, s1, w1)"
        by (cases "has this now s ?key") auto
      from has_available [OF less.prems h] have av1: "available s1" by blast
      have "length (items s1) \<le> length (items s)"
        using h by (rule has_length_items)
      with True have "length (items s1) - (i + 1) < length (items s) - i" by simp
      note IH = less.hyps [OF this av1]
      from inns True less.prems h IH show ?thesis
        by (simp add: keys_loop_step in_namespace_flag has_flag_available)
    qed
  qed
qed

lemma keys_flag:
  "outcome (keys (this\<lparr>enableWarnings := b\<rparr>) now s) = outcome (keys this now s)"
proof (cases "available s")
  case True
  then show ?thesis
    by (simp add: outcome_def keys_def keys_loop_flag split: prod.splits option.splits)
next
  case False
  then show ?thesis
    by (simp add: outcome_def keys_unavailable)
qed

section \<open>The claims\<close>

text \<open>
  Claim C1. Let \<open>set\<close> with a time to live \<open>t > 0\<close> succeed at time \<open>now\<close>. Then \<open>get\<close> at
  once returns the payload and leaves the store alone, and so does it at any time up to
  and including \<open>now + t\<close>; at any time after \<open>now + t\<close> it returns \<^verbatim>\<open>null\<close> ("no value")
  and the store it leaves has no entry under the full key. An envelope whose
  \<^verbatim>\<open>expiresAt\<close> is a number or \<^verbatim>\<open>null\<close> is expired exactly when it is a number and the
  current time is strictly greater. The payload is any JSON value (\<open>distinct_keys\<close> holds of
  every JavaScript object).
\<close>

theorem set_ttl_get_expiry:
  assumes "distinct_keys v" and "0 < t"
    and "set_sp this now s key v \<lparr>ttl = Some t\<rparr> = (True, s1, w)"
  shows "get this now s1 key = (v, s1, [])
    \<and> (\<forall>now'. now' \<le> now + t \<longrightarrow> get this now' s1 key = (v, s1, []))
    \<and> (\<forall>now'. now + t < now' \<longrightarrow>
          fst (get this now' s1 key) = JNull
          \<and> getItem (fst (snd (get this now' s1 key))) (getKey this key) = Inr None)
    \<and> (\<forall>now' e c. isExpired now' \<lparr>item_value = v,
            item_expiresAt = Some (case e of None \<Rightarrow> JNull | Some x \<Rightarrow> JNum x), item_createdAt = c\<rparr>
          \<longleftrightarrow> (\<exists>x. e = Some x \<and> x < now'))"
proof -
  let ?item = "\<lparr>item_value = v, item_expiresAt = Some (JNum (now + t)), item_createdAt = JNum now\<rparr>"
  let ?data = "JSON_stringify (json_of_item ?item)"
  from set_sp_TrueD [OF assms(3)] assms(2)
  have av: "available s1" and stored: "getItem s1 (getKey this key) = Inr (Some ?data)"
    by simp_all
  have parsed: "parseStoredData ?data = Some ?item"
    using assms(1) by (intro parseStoredData_envelope) simp_all
  have exp: "isExpired now' ?item \<longleftrightarrow> now + t < now'" for now'
    using isExpired_envelope [of now' v "Some (now + t)" "JNum now"] by simp
  have live: "get this now' s1 key = (v, s1, [])" if "now' \<le> now + t" for now'
    using get_live [OF stored parsed, of now'] exp [of now'] that by simp
  have dead: "fst (get this now' s1 key) = JNull
      \<and> getItem (fst (snd (get this now' s1 key))) (getKey this key) = Inr None"
    if "now + t < now'" for now'
    using get_expired [OF stored parsed, of now'] exp [of now'] that av
    by (simp add: getItem_after_filter)
  from live [of now] assms(2) have "get this now s1 key = (v, s1, [])" by simp
  with live dead isExpired_envelope show ?thesis by blast
qed

theorem set_ttl_get_expiry_witness:
  "distinct_keys (JNum 5) \<and> (0::int) < 1000
   \<and> fst (set_sp app_instance 0
          empty_store ''y'' (JNum 5) \<lparr>ttl = Some 1000\<rparr>) = True
   \<and> fst (get app_instance 0
          (fst (snd (set_sp app_instance 0
             empty_store ''y'' (JNum 5) \<lparr>ttl = Some 1000\<rparr>))) ''y'')
       = JNum 5
   \<and> fst (get app_instance 1000
          (fst (snd (set_sp app_instance 0
             empty_store ''y'' (JNum 5) \<lparr>ttl = Some 1000\<rparr>))) ''y'')
       = JNum 5
   \<and> fst (get app_instance 1001
          (fst (snd (set_sp app_instance 0
             empty_store ''y'' (JNum 5) \<lparr>ttl = Some 1000\<rparr>))) ''y'')
       = JNull
   \<and> getItem (fst (snd (get app_instance 1001
          (fst (snd (set_sp app_instance 0
             empty_store ''y'' (JNum 5) \<lparr>ttl = Some 1000\<rparr>))) ''y'')))
         (getKey app_instance ''y'') = Inr None"
proof -
  let ?sp = "app_instance"
  let ?r = "set_sp ?sp 0 empty_store ''y'' (JNum 5) \<lparr>ttl = Some 1000\<rparr>"
  have ok: "fst ?r = True"
    by (simp add: set_sp_def setItem_def Let_def app_instance_def empty_store_def)
  then have h: "?r = (True, fst (snd ?r), snd (snd ?r))"
    by (cases ?r) simp
  have d: "distinct_keys (JNum 5)" and t: "(0::int) < 1000"
    by simp_all
  note T = set_ttl_get_expiry [OF d t h]
  from T have a: "get ?sp 0 (fst (snd ?r)) ''y'' = (JNum 5, fst (snd ?r), [])"
    by (rule conjunct1)
  from T have "\<forall>now'. now' \<le> 0 + 1000 \<longrightarrow> get ?sp now' (fst (snd ?r)) ''y'' = (JNum 5, fst (snd ?r), [])"
    by (elim conjE)
  then have b: "get ?sp 1000 (fst (snd ?r)) ''y'' = (JNum 5, fst (snd ?r), [])"
    by (elim allE [of _ 1000] impE) simp_all
  from T have "\<forall>now'. 0 + 1000 < now' \<longrightarrow>
          fst (get ?sp now' (fst (snd ?r)) ''y'') = JNull
          \<and> getItem (fst (snd (get ?sp now' (fst (snd ?r)) ''y''))) (getKey ?sp ''y'') = Inr None"
    by (elim conjE)
  then have c: "fst (get ?sp 1001 (fst (snd ?r)) ''y'') = JNull
          \<and> getItem (fst (snd (get ?sp 1001 (fst (snd ?r)) ''y''))) (getKey ?sp ''y'') = Inr None"
    by (elim allE [of _ 1001] impE) simp_all
  have a': "fst (get ?sp 0 (fst (snd ?r)) ''y'') = JNum 5"
    by (subst a) (rule fst_conv)
  have b': "fst (get ?sp 1000 (fst (snd ?r)) ''y'') = JNum 5"
    by (subst b) (rule fst_conv)
  from d t ok a' b' c show ?thesis
    by (intro conjI) (elim conjE, assumption)+
qed

text \<open>
  Claim C2. With no time to live on the call and none configured, after a successful
  \<open>set\<close> a \<open>get\<close> at any time returns the payload and leaves the store as it is: the
  envelope survives \<^verbatim>\<open>JSON.stringify\<close> and \<^verbatim>\<open>JSON.parse\<close>. The payload is any JSON
  value (\<open>distinct_keys\<close> holds of every JavaScript object).
\<close>

theorem set_get_round_trip:
  assumes "distinct_keys v" and "defaultTTL this = None"
    and "set_sp this now s key v \<lparr>ttl = None\<rparr> = (True, s1, w)"
  shows "get this now' s1 key = (v, s1, [])"
proof -
  let ?item = "\<lparr>item_value = v, item_expiresAt = Some JNull, item_createdAt = JNum now\<rparr>"
  let ?data = "JSON_stringify (json_of_item ?item)"
  from set_sp_TrueD [OF assms(3)] assms(2)
  have stored: "getItem s1 (getKey this key) = Inr (Some ?data)"
    by simp
  have parsed: "parseStoredData ?data = Some ?item"
    using assms(1) by (intro parseStoredData_envelope) simp_all
  have "\<not> isExpired now' ?item"
    by (simp add: isExpired_def)
  with get_live [OF stored parsed, of now'] show ?thesis by simp
qed

theorem set_get_round_trip_witness:
  "distinct_keys (JObj [(''a'', JNum 1)]) \<and> defaultTTL app_instance = None
   \<and> fst (set_sp app_instance 0 empty_store ''x'' (JObj [(''a'', JNum 1)]) \<lparr>ttl = None\<rparr>) = True
   \<and> fst (get app_instance 7
        (fst (snd (set_sp app_instance 0 empty_store ''x'' (JObj [(''a'', JNum 1)]) \<lparr>ttl = None\<rparr>))) ''x'')
      = JObj [(''a'', JNum 1)]"
proof -
  let ?r = "set_sp app_instance 0 empty_store ''x'' (JObj [(''a'', JNum 1)]) \<lparr>ttl = None\<rparr>"
  have ok: "fst ?r = True"
    by (simp add: set_sp_def setItem_def Let_def app_instance_def empty_store_def)
  then have h: "?r = (True, fst (snd ?r), snd (snd ?r))"
    by (cases ?r) simp
  have d: "distinct_keys (JObj [(''a'', JNum 1)])" and n: "defaultTTL app_instance = None"
    by (simp_all add: app_instance_def)
  have "fst (get app_instance 7 (fst (snd ?r)) ''x'') = JObj [(''a'', JNum 1)]"
    by (subst set_get_round_trip [OF d n h]) (rule fst_conv)
  with d n ok show ?thesis
    by (intro conjI)
qed

text \<open>
  Claim C3 says that \<open>keys\<close> returns the keys of all the readable entries under the prefix.
  The pass of \<open>keys\<close> removes an expired entry while it counts indices, so the entry that
  moves into the freed index is never looked at (\<open>clear\<close> and \<open>cleanup\<close> collect first and
  remove afterwards). In \<open>two_entry_store\<close> the entry of
  \<^verbatim>\<open>a\<close> has expired at time 10 and comes before the entry of \<^verbatim>\<open>b\<close>, which never expires:
  \<open>keys\<close> returns no key at all, although \<open>get\<close> returns the payload of \<^verbatim>\<open>b\<close>, the entry
  of \<^verbatim>\<open>b\<close> is still in the store, and a second call of \<open>keys\<close> lists it.
\<close>

theorem keys_misses_entry_after_removal:
  "map fst (items two_entry_store) = [''app:a'', ''app:b'']
   \<and> fst (get app_instance 10 two_entry_store ''b'') = JNum 2
   \<and> fst (keys app_instance 10 two_entry_store) = []
   \<and> map fst (items (fst (snd (keys app_instance 10 two_entry_store)))) = [''app:b'']
   \<and> fst (keys app_instance 10 (fst (snd (keys app_instance 10 two_entry_store)))) = [''b'']"
  by code_simp






text \<open>
  Claim C6 says that \<open>cleanup\<close> removes every expired well-formed entry under the prefix
  and returns their number. The test \<^verbatim>\<open>fullKey && ...\<close> of its pass is false of the empty
  string, so an expired entry under the empty full key, which an instance without a
  namespace has after \<^verbatim>\<open>set('', 1, { ttl: 5 })\<close>, stays: \<open>cleanup\<close> returns 0 and
  leaves the store as it is. (\<open>cleanup_with_namespace\<close> is the claim for every instance
  that has a namespace.)
\<close>

theorem cleanup_skips_empty_key:
  "map fst (items expiring_empty_key_store) = [[]]
   \<and> startsWith [] (namespace plain_instance)
   \<and> map (expired_entry plain_instance 10) (items expiring_empty_key_store) = [True]
   \<and> cleanup plain_instance 10 expiring_empty_key_store = (0, expiring_empty_key_store, [])"
  by code_simp

text \<open>
  Claim C7 says that \<open>clear\<close> removes every entry whose full key starts with the prefix.
  The test \<^verbatim>\<open>key && ...\<close> of its first pass is false of the empty string, so the entry
  under the empty full key, which an instance without a namespace has after
  \<^verbatim>\<open>set('', 1)\<close>, stays: \<open>clear\<close> returns true and leaves the store as it is, and \<open>get\<close>
  still returns the payload. (\<open>clear_with_namespace\<close> is the claim for every instance
  that has a namespace.)
\<close>

theorem clear_skips_empty_key:
  "map fst (items empty_key_store) = [[]]
   \<and> startsWith [] (namespace plain_instance)
   \<and> clear plain_instance empty_key_store = (True, empty_key_store, [])
   \<and> fst (get plain_instance 0 (fst (snd (clear plain_instance empty_key_store))) []) = JNum 1"
  by code_simp

text \<open>
  Claim C8 says that \<open>size\<close> adds, for every entry under the prefix, the length of its
  full key and of its text. The tests \<^verbatim>\<open>key && ...\<close> and \<^verbatim>\<open>if (value)\<close> of its pass are
  false of the empty string, so an entry under the empty full key (and one whose text is
  empty) adds nothing: on the store that an instance without a namespace has after
  \<^verbatim>\<open>set('', 1)\<close>, whose one entry has 42 characters, \<open>size\<close> returns 0. It changes
  nothing in the store. (\<open>size_sp_with_namespace\<close> is what it returns for every instance
  that has a namespace.)
\<close>

theorem size_skips_empty_key:
  "map fst (items empty_key_store) = [[]]
   \<and> startsWith [] (namespace plain_instance)
   \<and> map (\<lambda>p. length (fst p) + length (snd p)) (items empty_key_store) = [42]
   \<and> size_sp plain_instance empty_key_store = (0, empty_key_store, [])"
  by code_simp

text \<open>
  Claim C9. Two instances that differ only in \<^verbatim>\<open>enableWarnings\<close> return the same value
  and leave the same store, for each of the nine operations, from every store (available
  or not, with or without a quota) and for every argument: the flag only decides which
  warnings are printed.
\<close>

theorem warnings_do_not_change_outcome:
  "outcome (set_sp (this\<lparr>enableWarnings := b\<rparr>) now s key v options) = outcome (set_sp this now s key v options)
   \<and> outcome (get (this\<lparr>enableWarnings := b\<rparr>) now s key) = outcome (get this now s key)
   \<and> outcome (has (this\<lparr>enableWarnings := b\<rparr>) now s key) = outcome (has this now s key)
   \<and> outcome (remove_sp (this\<lparr>enableWarnings := b\<rparr>) s key) = outcome (remove_sp this s key)
   \<and> outcome (clear (this\<lparr>enableWarnings := b\<rparr>) s) = outcome (clear this s)
   \<and> outcome (keys (this\<lparr>enableWarnings := b\<rparr>) now s) = outcome (keys this now s)
   \<and> outcome (size_sp (this\<lparr>enableWarnings := b\<rparr>) s) = outcome (size_sp this s)
   \<and> outcome (cleanup (this\<lparr>enableWarnings := b\<rparr>) now s) = outcome (cleanup this now s)
   \<and> outcome (getInfo (this\<lparr>enableWarnings := b\<rparr>) now s key) = outcome (getInfo this now s key)"
  by (intro conjI)
     (rule set_sp_flag get_flag has_flag remove_sp_flag clear_flag keys_flag size_sp_flag
           cleanup_flag getInfo_flag)+

text \<open>
  Claim C10. When the time to live that \<open>set\<close> resolves is 0 (given on the call, whatever
  the default), or when none is given and the instance has no default, the envelope is
  stored with \<^verbatim>\<open>expiresAt\<close> \<^verbatim>\<open>null\<close>; then at every time \<open>get\<close> returns the payload,
  \<open>getInfo\<close> says that the entry exists, and \<open>cleanup\<close> and \<open>keys\<close> leave the entry
  where it is. The constructor turns a default of 0 into no default: it builds the same
  instance, store and warnings from the options with \<^verbatim>\<open>defaultTTL: 0\<close> as from the
  options without a default. The payload is any JSON value (\<open>distinct_keys\<close> holds of
  every JavaScript object).
\<close>

theorem zero_ttl_never_expires:
  assumes "distinct_keys v"
    and "ttl options = Some 0 \<or> (ttl options = None \<and> defaultTTL this = None)"
    and "set_sp this now s key v options = (True, s1, w)"
  shows "getItem s1 (getKey this key) = Inr (Some (JSON_stringify (json_of_item
            \<lparr>item_value = v, item_expiresAt = Some JNull, item_createdAt = JNum now\<rparr>)))
    \<and> get this now' s1 key = (v, s1, [])
    \<and> getInfo this now' s1 key =
        (Exists (JNum now) (Some JNull) (length (JSON_stringify (json_of_item
            \<lparr>item_value = v, item_expiresAt = Some JNull, item_createdAt = JNum now\<rparr>))), s1, [])
    \<and> getItem (fst (snd (cleanup this now' s1))) (getKey this key) = getItem s1 (getKey this key)
    \<and> getItem (fst (snd (keys this now' s1))) (getKey this key) = getItem s1 (getKey this key)
    \<and> new_StoragePlus st (opts\<lparr>opt_defaultTTL := Some 0\<rparr>) = new_StoragePlus st (opts\<lparr>opt_defaultTTL := None\<rparr>)"
proof -
  let ?item = "\<lparr>item_value = v, item_expiresAt = Some JNull, item_createdAt = JNum now\<rparr>"
  let ?data = "JSON_stringify (json_of_item ?item)"
  from set_sp_TrueD [OF assms(3)] assms(2)
  have av: "available s1" and stored: "getItem s1 (getKey this key) = Inr (Some ?data)"
    by auto
  from stored av have m: "map_of (items s1) (getKey this key) = Some ?data"
    by (simp add: getItem_def)
  have parsed: "parseStoredData ?data = Some ?item"
    using assms(1) by (intro parseStoredData_envelope) simp_all
  have fresh: "\<not> isExpired now' ?item"
    by (simp add: isExpired_def)
  then have r: "readable now' ?data"
    by (simp add: readable_def parsed)
  have g: "get this now' s1 key = (v, s1, [])"
    using get_live [OF stored parsed fresh] by simp
  have i: "getInfo this now' s1 key = (Exists (JNum now) (Some JNull) (length ?data), s1, [])"
    using av m parsed fresh by (simp add: getInfo_available)
  have c: "getItem (fst (snd (cleanup this now' s1))) (getKey this key) = getItem s1 (getKey this key)"
    using cleanup_keeps_readable [OF av m r, of this] av stored
    by (simp add: getItem_def cleanup_available)
  have k: "getItem (fst (snd (keys this now' s1))) (getKey this key) = getItem s1 (getKey this key)"
    using keys_keeps_readable [OF av m r, of this] stored by simp
  have n: "new_StoragePlus st (opts\<lparr>opt_defaultTTL := Some 0\<rparr>) = new_StoragePlus st (opts\<lparr>opt_defaultTTL := None\<rparr>)"
    by (simp add: new_StoragePlus_def)
  show ?thesis
    by (intro conjI) (rule stored g i c k n)+
qed

theorem zero_ttl_never_expires_witness:
  "distinct_keys (JStr ''v'')
   \<and> fst (set_sp app_instance 0 empty_store ''q'' (JStr ''v'') \<lparr>ttl = Some 0\<rparr>) = True
   \<and> getItem (fst (snd (set_sp app_instance 0 empty_store ''q'' (JStr ''v'') \<lparr>ttl = Some 0\<rparr>)))
        (getKey app_instance ''q'')
      = Inr (Some (JSON_stringify (json_of_item
            \<lparr>item_value = JStr ''v'', item_expiresAt = Some JNull, item_createdAt = JNum 0\<rparr>)))
   \<and> fst (get app_instance 1000000
        (fst (snd (set_sp app_instance 0 empty_store ''q'' (JStr ''v'') \<lparr>ttl = Some 0\<rparr>))) ''q'')
      = JStr ''v''
   \<and> fst (getInfo app_instance 1000000
        (fst (snd (set_sp app_instance 0 empty_store ''q'' (JStr ''v'') \<lparr>ttl = Some 0\<rparr>))) ''q'')
      = Exists (JNum 0) (Some JNull) (length (JSON_stringify (json_of_item
            \<lparr>item_value = JStr ''v'', item_expiresAt = Some JNull, item_createdAt = JNum 0\<rparr>)))
   \<and> defaultTTL (fst (new_StoragePlus empty_store
        \<lparr>opt_namespace = Some ''app'', opt_defaultTTL = Some 0, opt_enableWarnings = None\<rparr>)) = None"
proof -
  let ?r = "set_sp app_instance 0 empty_store ''q'' (JStr ''v'') \<lparr>ttl = Some 0\<rparr>"
  have ok: "fst ?r = True"
    by (simp add: set_sp_def setItem_def Let_def app_instance_def empty_store_def)
  then have h: "?r = (True, fst (snd ?r), snd (snd ?r))"
    by (cases ?r) simp
  have d: "distinct_keys (JStr ''v'')"
    by simp
  have z: "ttl \<lparr>ttl = Some 0\<rparr> = Some 0 \<or> (ttl \<lparr>ttl = Some 0\<rparr> = None \<and> defaultTTL app_instance = None)"
    by simp
  note T = zero_ttl_never_expires [OF d z h, of 1000000 empty_store
      "\<lparr>opt_namespace = Some ''app'', opt_defaultTTL = Some 0, opt_enableWarnings = None\<rparr>"]
  from T have a: "getItem (fst (snd ?r)) (getKey app_instance ''q'')
      = Inr (Some (JSON_stringify (json_of_item
            \<lparr>item_value = JStr ''v'', item_expiresAt = Some JNull, item_createdAt = JNum 0\<rparr>)))"
    by (elim conjE)
  from T have "get app_instance 1000000 (fst (snd ?r)) ''q'' = (JStr ''v'', fst (snd ?r), [])"
    by (elim conjE)
  then have b: "fst (get app_instance 1000000 (fst (snd ?r)) ''q'') = JStr ''v''"
    by simp
  from T have "getInfo app_instance 1000000 (fst (snd ?r)) ''q'' =
        (Exists (JNum 0) (Some JNull) (length (JSON_stringify (json_of_item
            \<lparr>item_value = JStr ''v'', item_expiresAt = Some JNull, item_createdAt = JNum 0\<rparr>))),
         fst (snd ?r), [])"
    by (elim conjE)
  then have c: "fst (getInfo app_instance 1000000 (fst (snd ?r)) ''q'')
      = Exists (JNum 0) (Some JNull) (length (JSON_stringify (json_of_item
            \<lparr>item_value = JStr ''v'', item_expiresAt = Some JNull, item_createdAt = JNum 0\<rparr>)))"
    by simp
  have n: "defaultTTL (fst (new_StoragePlus empty_store
        \<lparr>opt_namespace = Some ''app'', opt_defaultTTL = Some 0, opt_enableWarnings = None\<rparr>)) = None"
    by (simp add: new_StoragePlus_def Let_def split: prod.splits)
  show ?thesis
    by (intro conjI) (rule d ok a b c n)+
qed

end
